theory Spec2Isabelle
  imports Complex_Main "HOL-Library.Sublist"
begin

section \<open>Python values and strings\<close>

text \<open>
  A Python \<open>str\<close> is a sequence of Unicode code points; it is modelled as a list of
  natural numbers. ASCII literals are written with \<open>asc\<close>; the Cyrillic literals of the
  sources are written out as code points.
\<close>

type_synonym pystr = "nat list"

definition asc :: "string \<Rightarrow> pystr" where
  "asc s = map of_char s"

text \<open>The values a table cell or a function argument can hold: \<open>None\<close>, a bool, an int,
  the missing-value float \<open>nan\<close>, or a string.\<close>

datatype pyval = PNone | PBool bool | PInt int | PNaN | PStr pystr

datatype py_error = AttributeError | TypeError | ValueError | ZeroDivisionError

fun truthy :: "pyval \<Rightarrow> bool" where
  "truthy PNone = False"
| "truthy (PBool b) = b"
| "truthy (PInt i) = (i \<noteq> 0)"
| "truthy PNaN = True"
| "truthy (PStr s) = (s \<noteq> [])"

fun isinstance_str :: "pyval \<Rightarrow> bool" where
  "isinstance_str (PStr s) = True"
| "isinstance_str v = False"

fun nat_digits :: "nat \<Rightarrow> pystr" where
  "nat_digits n = (if n < 10 then [48 + n] else nat_digits (n div 10) @ [48 + n mod 10])"

declare nat_digits.simps [simp del]

definition int_str :: "int \<Rightarrow> pystr" where
  "int_str i = (if i < 0 then 45 # nat_digits (nat (- i)) else nat_digits (nat i))"

text \<open>\<open>str(v)\<close>.\<close>

fun py_str :: "pyval \<Rightarrow> pystr" where
  "py_str PNone = asc ''None''"
| "py_str (PBool b) = (if b then asc ''True'' else asc ''False'')"
| "py_str (PInt i) = int_str i"
| "py_str PNaN = asc ''nan''"
| "py_str (PStr s) = s"

text \<open>\<open>str.isspace\<close> of one code point (also the class \<open>\s\<close> of \<open>re\<close>).\<close>

definition py_isspace :: "nat \<Rightarrow> bool" where
  "py_isspace c \<longleftrightarrow>
     (9 \<le> c \<and> c \<le> 13) \<or> (28 \<le> c \<and> c \<le> 32) \<or> c = 133 \<or> c = 160 \<or> c = 5760 \<or>
     (8192 \<le> c \<and> c \<le> 8202) \<or> c = 8232 \<or> c = 8233 \<or> c = 8239 \<or> c = 8287 \<or> c = 12288"

text \<open>\<open>str.lower\<close>, code point by code point, on the Latin and Cyrillic capital letters
  (the alphabets of the sources' literals); every other code point is left as it is.\<close>

definition lower_cp :: "nat \<Rightarrow> nat" where
  "lower_cp c =
     (if 65 \<le> c \<and> c \<le> 90 then c + 32
      else if 192 \<le> c \<and> c \<le> 222 \<and> c \<noteq> 215 then c + 32
      else if 1040 \<le> c \<and> c \<le> 1071 then c + 32
      else if 1024 \<le> c \<and> c \<le> 1039 then c + 80
      else c)"

definition py_lower :: "pystr \<Rightarrow> pystr" where
  "py_lower s = map lower_cp s"

text \<open>\<open>s.find(sub)\<close>: the index of the first occurrence, \<open>None\<close> for Python's \<open>-1\<close>.\<close>

fun py_find :: "'a list \<Rightarrow> 'a list \<Rightarrow> nat option" where
  "py_find sub [] = (if sub = [] then Some 0 else None)"
| "py_find sub (c # cs) =
     (if prefix sub (c # cs) then Some 0 else map_option Suc (py_find sub cs))"

text \<open>\<open>sub in s\<close>.\<close>

definition py_in :: "'a list \<Rightarrow> 'a list \<Rightarrow> bool" where
  "py_in sub s \<longleftrightarrow> py_find sub s \<noteq> None"

lemma py_find_bound: "py_find sub s = Some i \<Longrightarrow> i + length sub \<le> length s"
proof (induction s arbitrary: i)
  case Nil
  then show ?case by (simp split: if_splits)
next
  case (Cons c cs)
  show ?case
  proof (cases "prefix sub (c # cs)")
    case True
    with Cons.prems prefix_length_le [of sub "c # cs"] show ?thesis by simp
  next
    case False
    with Cons.prems obtain j where "py_find sub cs = Some j" "i = Suc j" by auto
    with Cons.IH show ?thesis by fastforce
  qed
qed

text \<open>\<open>s.split(sep)\<close> for a non-empty separator (the sources only pass literals): cut at
  each occurrence found scanning from the left.\<close>

function py_split :: "'a list \<Rightarrow> 'a list \<Rightarrow> 'a list list" where
  "py_split sep s =
     (if sep = [] then [s]
      else (case py_find sep s of
              None \<Rightarrow> [s]
            | Some i \<Rightarrow> take i s # py_split sep (drop (i + length sep) s)))"
  by pat_completeness auto
termination
proof (relation "measure (\<lambda>(sep, s). length s)")
  show "wf (measure (\<lambda>(sep, s). length s))" by simp
next
  fix sep s :: "'a list" and i
  assume "sep \<noteq> []" "py_find sep s = Some i"
  then have "i + length sep \<le> length s" "0 < length sep"
    by (auto dest: py_find_bound)
  then have "length s - (i + length sep) < length s"
    by arith
  then show "((sep, drop (i + length sep) s), (sep, s)) \<in> measure (\<lambda>(sep, s). length s)"
    by simp
qed

declare py_split.simps [simp del]

text \<open>\<open>sep.join(xs)\<close>.\<close>

fun py_join :: "'a list \<Rightarrow> 'a list list \<Rightarrow> 'a list" where
  "py_join sep [] = []"
| "py_join sep [x] = x"
| "py_join sep (x # y # ys) = x @ sep @ py_join sep (y # ys)"

text \<open>\<open>s.replace(old, new)\<close> for a non-empty \<open>old\<close>: the pieces between the occurrences,
  joined by \<open>new\<close>.\<close>

definition py_replace :: "'a list \<Rightarrow> 'a list \<Rightarrow> 'a list \<Rightarrow> 'a list" where
  "py_replace old new s = py_join new (py_split old s)"

definition py_lstrip :: "('a \<Rightarrow> bool) \<Rightarrow> 'a list \<Rightarrow> 'a list" where
  "py_lstrip P s = dropWhile P s"

definition py_rstrip :: "('a \<Rightarrow> bool) \<Rightarrow> 'a list \<Rightarrow> 'a list" where
  "py_rstrip P s = rev (dropWhile P (rev s))"

definition py_strip :: "('a \<Rightarrow> bool) \<Rightarrow> 'a list \<Rightarrow> 'a list" where
  "py_strip P s = py_rstrip P (py_lstrip P s)"

section \<open>Address Normalizer (main.py, normalize\_address\_for\_geocoding)\<close>

definition na_karte :: pystr where
  "na_karte = [1053, 1072, 32, 1082, 1072, 1088, 1090, 1077]"

definition tokens_to_drop :: "pystr list" where
  "tokens_to_drop =
    [[1088, 45, 1085], [1088, 1072, 1081, 1086, 1085], [1040, 1054],
     [1086, 1082, 1088, 1091, 1075],
     [1072, 1076, 1084, 46, 32, 1086, 1082, 1088, 1091, 1075],
     [1040, 1044, 1052, 32, 1054, 1082, 1088, 1091, 1075],
     [1062, 1040, 1054], [1057, 1040, 1054], [1057, 1042, 1040, 1054],
     [1070, 1042, 1040, 1054], [1070, 1040, 1054], [1070, 1047, 1040, 1054],
     [1047, 1040, 1054], [1057, 1047, 1040, 1054], [1053, 1040, 1054], [1058, 1040, 1054],
     [1053, 1040, 1054, 32, 40, 1053, 1086, 1074, 1086, 1084, 1086, 1089, 1082, 1086, 1074,
      1089, 1082, 1080, 1081, 41],
     [1058, 1040, 1054, 32, 40, 1058, 1088, 1086, 1080, 1094, 1082, 1080, 1081, 41]]"

text \<open>One attempt of the pattern \<open>\s*\([^\)]*\)\<close> at the head of the string: the rest after
  the match, if it matches here.\<close>

definition paren_match :: "pystr \<Rightarrow> pystr option" where
  "paren_match s =
     (case dropWhile py_isspace s of
        [] \<Rightarrow> None
      | c # t \<Rightarrow> if c = 40 \<and> 41 \<in> set t then Some (tl (dropWhile (\<lambda>x. x \<noteq> 41) t)) else None)"

lemma paren_match_shorter: "paren_match s = Some r \<Longrightarrow> length r < length s"
proof -
  assume a: "paren_match s = Some r"
  then obtain c t where d: "dropWhile py_isspace s = c # t"
    and r: "r = tl (dropWhile (\<lambda>x. x \<noteq> 41) t)"
    by (auto simp: paren_match_def split: list.splits if_splits)
  have "length r \<le> length t"
    using r length_dropWhile_le [of "\<lambda>x. x \<noteq> 41" t] by simp
  moreover have "length (c # t) \<le> length s"
    using d length_dropWhile_le [of py_isspace s] by simp
  ultimately show ?thesis by simp
qed

text \<open>\<open>re.sub(r"\s*\([^\)]*\)", "", a)\<close>: matches are removed from left to right.\<close>

function re_sub_parens :: "pystr \<Rightarrow> pystr" where
  "re_sub_parens [] = []"
| "re_sub_parens (c # cs) =
     (case paren_match (c # cs) of
        Some r \<Rightarrow> re_sub_parens r
      | None \<Rightarrow> c # re_sub_parens cs)"
  by pat_completeness auto
termination
  by (relation "measure length") (auto dest: paren_match_shorter)

definition address_parts :: "pystr \<Rightarrow> pystr list" where
  "address_parts a =
     map (py_strip py_isspace)
       (filter (\<lambda>p. py_strip py_isspace p \<noteq> []) (py_split [44] a))"

definition is_dropped :: "pystr \<Rightarrow> bool" where
  "is_dropped p \<longleftrightarrow> list_ex (\<lambda>tok. py_in (py_lower tok) (py_lower p)) tokens_to_drop"

definition clean_address :: "pystr \<Rightarrow> pystr" where
  "clean_address address =
     re_sub_parens (py_strip (\<lambda>c. c = 32 \<or> c = 44) (py_replace na_karte [] address))"

definition filtered_parts :: "pystr \<Rightarrow> pystr list" where
  "filtered_parts address = filter (\<lambda>p. \<not> is_dropped p) (address_parts (clean_address address))"

text \<open>The function itself. A city that is truthy but not a string makes \<open>city.lower()\<close>
  (or the final \<open>join\<close>) raise.\<close>

definition normalize_address_for_geocoding :: "pyval \<Rightarrow> pyval \<Rightarrow> py_error + pystr" where
  "normalize_address_for_geocoding address city =
     (case address of
        PStr s \<Rightarrow>
          (let a = clean_address s;
               filtered = filtered_parts s
           in if truthy city then
                (case city of
                   PStr c \<Rightarrow>
                     (let filtered' =
                            (if list_all (\<lambda>p. \<not> py_in (py_lower c) (py_lower p)) filtered
                             then c # filtered else filtered)
                      in Inr (if filtered' \<noteq> [] then py_join (asc '', '') filtered'
                              else c @ asc '', '' @ a))
                 | _ \<Rightarrow> if filtered = [] then Inl TypeError else Inl AttributeError)
              else Inr (if filtered \<noteq> [] then py_join (asc '', '') filtered else a))
      | _ \<Rightarrow> Inr (py_str address))"

section \<open>Derived price per square metre (main.py, lines 329 and 494)\<close>

subsection \<open>Python floats\<close>

text \<open>
  A Python float is an IEEE 754 double: a finite double is given by the rational it
  stands for (\<open>Fl 0\<close> is both zeros, which compare equal and are both falsy), next to the
  two infinities and the NaN. The operators round to the nearest double, a tie going to
  the even mantissa.
\<close>

datatype pyfloat = Fl rat | PosInf | NegInf | NaN

text \<open>\<open>int.bit_length\<close>, for an integer that is not negative.\<close>

function bit_length :: "int \<Rightarrow> nat" where
  "bit_length n = (if n \<le> 0 then 0 else Suc (bit_length (n div 2)))"
  by pat_completeness auto

termination
  by (relation "measure nat") auto

declare bit_length.simps [simp del]

text \<open>The exponent \<open>e\<close> with \<open>2 ^ e \<le> x < 2 ^ (e + 1)\<close>, for a positive \<open>x\<close>.\<close>

definition binade :: "rat \<Rightarrow> int" where
  "binade x =
     (if 1 \<le> x then int (bit_length \<lfloor>x\<rfloor>) - 1
      else (let b = int (bit_length \<lfloor>1 / x\<rfloor>)
            in if x * power_int 2 (b - 1) = 1 then 1 - b else - b))"

definition round_half_even :: "rat \<Rightarrow> int" where
  "round_half_even x =
     (let f = \<lfloor>x\<rfloor>; d = x - of_int f
      in if d < 1 / 2 then f else if 1 / 2 < d then f + 1 else if even f then f else f + 1)"

text \<open>
  The double nearest to a rational: 53 bits of mantissa, the unit in the last place no
  smaller than \<open>2 ^ -1074\<close> (subnormal numbers), and an infinity from \<open>2 ^ 1024\<close> on.
\<close>

definition nearest_double :: "rat \<Rightarrow> pyfloat" where
  "nearest_double x =
     (if x = 0 then Fl 0
      else (let e = max (binade \<bar>x\<bar> - 52) (- 1074);
                m = round_half_even (\<bar>x\<bar> / power_int 2 e);
                r = of_int m * power_int 2 e
            in if 2 ^ 1024 \<le> r then (if 0 < x then PosInf else NegInf)
               else Fl (if 0 < x then r else - r)))"

text \<open>\<open>x / y\<close> on floats: a zero divisor raises, whatever the dividend.\<close>

fun py_truediv :: "pyfloat \<Rightarrow> pyfloat \<Rightarrow> py_error + pyfloat" where
  "py_truediv x (Fl v) =
     (if v = 0 then Inl ZeroDivisionError
      else (case x of
              Fl u \<Rightarrow> Inr (nearest_double (u / v))
            | PosInf \<Rightarrow> Inr (if 0 < v then PosInf else NegInf)
            | NegInf \<Rightarrow> Inr (if 0 < v then NegInf else PosInf)
            | NaN \<Rightarrow> Inr NaN))"
| "py_truediv (Fl u) PosInf = Inr (Fl 0)"
| "py_truediv (Fl u) NegInf = Inr (Fl 0)"
| "py_truediv x y = Inr NaN"

text \<open>
  \<open>round(x, 2)\<close>: the decimal with two places nearest to the value of the double (a tie
  going to the even neighbour), and then the double nearest to that decimal; an infinity
  and the NaN round to themselves.
\<close>

fun py_round2 :: "pyfloat \<Rightarrow> pyfloat" where
  "py_round2 (Fl x) = nearest_double (of_int (round_half_even (x * 100)) / 100)"
| "py_round2 f = f"

text \<open>Truthiness of an optional float: \<open>None\<close> and the zeros are falsy.\<close>

fun float_truthy :: "pyfloat option \<Rightarrow> bool" where
  "float_truthy None = False"
| "float_truthy (Some (Fl x)) = (x \<noteq> 0)"
| "float_truthy (Some f) = True"

subsection \<open>The expression\<close>

text \<open>\<open>round(price_total/area_m2, 2) if price_total and area_m2 else None\<close>, the same
  expression in \<open>scrape_cian\<close> and \<open>scrape_avito\<close>; \<open>Inr None\<close> is the null.\<close>

definition price_per_m2 :: "pyfloat option \<Rightarrow> pyfloat option \<Rightarrow> py_error + pyfloat option" where
  "price_per_m2 price_total area_m2 =
     (if float_truthy price_total \<and> float_truthy area_m2
      then (case (price_total, area_m2) of
              (Some p, Some a) \<Rightarrow>
                (case py_truediv p a of
                   Inl e \<Rightarrow> Inl e
                 | Inr q \<Rightarrow> Inr (Some (py_round2 q)))
            | _ \<Rightarrow> Inr None)
      else Inr None)"

section \<open>Record Store: coordinate backfill (main.py, \_ensure\_coords\_and\_notes)\<close>

text \<open>
  A row of the table, with the columns the modelled code reads or writes (the other
  columns of \<open>COLUMN_ORDER\<close> are created empty and never touched). Coordinates are of an
  abstract type \<open>'c\<close>; \<open>None\<close> stands for a missing value (\<open>pd.notna\<close> is false).
  The column \<open>notes\<close> is the field \<open>notes_col\<close>.
\<close>

record 'c row =
  source :: pyval
  external_id :: pyval
  url :: pyval
  title :: pyval
  address_raw :: pyval
  address_formatted :: pyval
  city :: pyval
  lat :: "'c option"
  lng :: "'c option"
  notes_col :: pyval

text \<open>\<open>a or b\<close>.\<close>

definition py_or :: "pyval \<Rightarrow> pyval \<Rightarrow> pyval" where
  "py_or a b = (if truthy a then a else b)"

text \<open>The note \<open>f"lat = {lat}, lng = {lng}"\<close> from the two rendered numbers.\<close>

definition coord_note :: "pystr \<Rightarrow> pystr \<Rightarrow> pystr" where
  "coord_note la lo = asc ''lat = '' @ la @ asc '', lng = '' @ lo"

text \<open>
  \<open>geocode_address\<close>: the remote lookup (with its cache and retries) is the oracle
  \<open>lookup\<close>. Before the request, a truthy city that is not a key of \<open>CITY_VIEWBOX\<close> is
  capitalized, which raises for a city that is not a string.
\<close>

definition geocode_address ::
  "(pystr \<Rightarrow> pyval \<Rightarrow> ('c \<times> 'c) option) \<Rightarrow> pystr \<Rightarrow> pyval \<Rightarrow> py_error + ('c \<times> 'c) option" where
  "geocode_address lookup address cty =
     (if truthy cty \<and> \<not> isinstance_str cty then Inl AttributeError
      else Inr (lookup address cty))"

text \<open>The state threaded through the loop: the counter \<open>updated\<close> and the queries sent to
  the geocoder so far.\<close>

record backfill_state =
  updated :: nat
  queries :: "pystr list"

text \<open>One iteration of the loop over the rows; \<open>fmt\<close> renders a float as \<open>str\<close> does.\<close>

definition ensure_row ::
  "('c \<Rightarrow> pystr) \<Rightarrow> (pystr \<Rightarrow> pyval \<Rightarrow> ('c \<times> 'c) option) \<Rightarrow> nat option \<Rightarrow>
   backfill_state \<Rightarrow> 'c row \<Rightarrow> py_error + (backfill_state \<times> 'c row)" where
  "ensure_row fmt lookup geocode_limit st r =
     (case (lat r, lng r) of
        (Some la, Some lo) \<Rightarrow>
          (let legacy = coord_note (fmt la) (fmt lo)
           in case notes_col r of
                PStr note \<Rightarrow>
                  if \<not> py_in (asc ''lat ='') note then Inr (st, r\<lparr>notes_col := PStr legacy\<rparr>)
                  else Inr (st, r)
              | _ \<Rightarrow> Inr (st, r\<lparr>notes_col := PStr legacy\<rparr>))
      | _ \<Rightarrow>
          if (case geocode_limit of None \<Rightarrow> False | Some l \<Rightarrow> l \<le> updated st) then Inr (st, r)
          else
            (case normalize_address_for_geocoding (py_or (address_raw r) (title r)) (city r) of
               Inl e \<Rightarrow> Inl e
             | Inr address \<Rightarrow>
                 if address = [] then Inr (st, r)
                 else
                   (case geocode_address lookup address (city r) of
                      Inl e \<Rightarrow> Inl e
                    | Inr None \<Rightarrow> Inr (st\<lparr>queries := queries st @ [address]\<rparr>, r)
                    | Inr (Some (la, lo)) \<Rightarrow>
                        Inr (st\<lparr>updated := Suc (updated st),
                                 queries := queries st @ [address]\<rparr>,
                             r\<lparr>lat := Some la, lng := Some lo,
                               notes_col := PStr (coord_note (fmt la) (fmt lo))\<rparr>))))"

fun ensure_rows ::
  "('c \<Rightarrow> pystr) \<Rightarrow> (pystr \<Rightarrow> pyval \<Rightarrow> ('c \<times> 'c) option) \<Rightarrow> nat option \<Rightarrow>
   backfill_state \<Rightarrow> 'c row list \<Rightarrow> py_error + (backfill_state \<times> 'c row list)" where
  "ensure_rows fmt lookup geocode_limit st [] = Inr (st, [])"
| "ensure_rows fmt lookup geocode_limit st (r # rs) =
     (case ensure_row fmt lookup geocode_limit st r of
        Inl e \<Rightarrow> Inl e
      | Inr (st', r') \<Rightarrow>
          (case ensure_rows fmt lookup geocode_limit st' rs of
             Inl e \<Rightarrow> Inl e
           | Inr (st'', rs') \<Rightarrow> Inr (st'', r' # rs')))"

definition ensure_coords_and_notes ::
  "('c \<Rightarrow> pystr) \<Rightarrow> (pystr \<Rightarrow> pyval \<Rightarrow> ('c \<times> 'c) option) \<Rightarrow> nat option \<Rightarrow>
   'c row list \<Rightarrow> py_error + (backfill_state \<times> 'c row list)" where
  "ensure_coords_and_notes fmt lookup geocode_limit rows =
     ensure_rows fmt lookup geocode_limit \<lparr>updated = 0, queries = []\<rparr> rows"

section \<open>Zone Classifier: reading the coordinate note (wb\_check\_coordinates.py)\<close>

text \<open>\<open>coordinates.split('lat = ')[-1].split(',')[0]\<close> and
  \<open>coordinates.split('lng = ')[-1]\<close>.\<close>

definition parse_lat :: "pystr \<Rightarrow> pystr" where
  "parse_lat coordinates = hd (py_split [44] (last (py_split (asc ''lat = '') coordinates)))"

definition parse_lng :: "pystr \<Rightarrow> pystr" where
  "parse_lng coordinates = last (py_split (asc ''lng = '') coordinates)"

section \<open>URL Normalizer (main.py, normalize\_url)\<close>

subsection \<open>urllib.parse (CPython 3.11): urlparse and urlunparse\<close>

text \<open>
  The model follows \<open>urllib/parse.py\<close> of CPython 3.11.10. Three things are parameters.
  Two checks depend on tables outside this development: the validation of a netloc that
  holds both brackets (\<open>_check_bracketed_host\<close> on the text between them, through
  \<open>ipaddress\<close>; some releases make no such check and some also look at the text around
  the brackets) and the test of a non-ASCII netloc under NFKC normalization
  (\<open>_checknetloc\<close>). Each says whether the check passes (it raises \<open>ValueError\<close>
  otherwise). The third is the rule of \<open>urlunsplit\<close> for a URL without a netloc, which
  differs between releases: in 3.11.10 the \<open>//\<close> is written when the scheme uses a netloc
  or the path starts with \<open>//\<close>; in other releases (3.11.2 and 3.12.3 among them) it is
  written when the scheme uses a netloc and the path does not start with \<open>//\<close>.
\<close>

record urllib =
  check_bracketed_netloc :: "pystr \<Rightarrow> bool"
  checknetloc :: "pystr \<Rightarrow> bool"
  marks_double_slash :: bool

definition ascii_alpha :: "nat \<Rightarrow> bool" where
  "ascii_alpha c \<longleftrightarrow> (65 \<le> c \<and> c \<le> 90) \<or> (97 \<le> c \<and> c \<le> 122)"

definition scheme_char :: "nat \<Rightarrow> bool" where
  "scheme_char c \<longleftrightarrow> ascii_alpha c \<or> (48 \<le> c \<and> c \<le> 57) \<or> c = 43 \<or> c = 45 \<or> c = 46"

definition uses_netloc :: "pystr list" where
  "uses_netloc = map asc
     [[], ''ftp'', ''http'', ''gopher'', ''nntp'', ''telnet'', ''imap'', ''wais'', ''file'',
      ''mms'', ''https'', ''shttp'', ''snews'', ''prospero'', ''rtsp'', ''rtsps'', ''rtspu'',
      ''rsync'', ''svn'', ''svn+ssh'', ''sftp'', ''nfs'', ''git'', ''git+ssh'', ''ws'', ''wss'']"

definition uses_params :: "pystr list" where
  "uses_params = map asc
     [[], ''ftp'', ''hdl'', ''prospero'', ''http'', ''imap'', ''https'', ''shttp'', ''rtsp'',
      ''rtsps'', ''rtspu'', ''sip'', ''sips'', ''mms'', ''sftp'', ''tel'']"

text \<open>The scheme, when the text before the first colon is one: \<open>(scheme, rest)\<close>.\<close>

definition split_scheme :: "pystr \<Rightarrow> pystr \<times> pystr" where
  "split_scheme u =
     (case py_find [58] u of
        None \<Rightarrow> ([], u)
      | Some i \<Rightarrow>
          (case u of
             [] \<Rightarrow> ([], u)
           | c # _ \<Rightarrow>
               if 0 < i \<and> ascii_alpha c \<and> list_all scheme_char (take i u)
               then (py_lower (take i u), drop (i + 1) u)
               else ([], u)))"

text \<open>\<open>_splitnetloc(url, 2)\<close>: the netloc ends at the first of \<open>/\<close>, \<open>?\<close>, \<open>#\<close>.\<close>

definition netloc_end :: "nat \<Rightarrow> bool" where
  "netloc_end c \<longleftrightarrow> c = 47 \<or> c = 63 \<or> c = 35"

definition splitnetloc :: "pystr \<Rightarrow> pystr \<times> pystr" where
  "splitnetloc u =
     (takeWhile (\<lambda>c. \<not> netloc_end c) (drop 2 u), dropWhile (\<lambda>c. \<not> netloc_end c) (drop 2 u))"

text \<open>\<open>s.split(sep, 1)\<close> for a one-character separator: the text before its first
  occurrence (all of \<open>s\<close> when there is none) and the text after it.\<close>

definition split_once :: "nat \<Rightarrow> pystr \<Rightarrow> pystr \<times> pystr" where
  "split_once sep u = (takeWhile (\<lambda>c. c \<noteq> sep) u, tl (dropWhile (\<lambda>c. c \<noteq> sep) u))"

text \<open>\<open>if c in url: url, rest = url.split(c, 1)\<close>.\<close>

definition cut_at :: "nat \<Rightarrow> pystr \<Rightarrow> pystr \<times> pystr" where
  "cut_at c u = (if c \<in> set u then split_once c u else (u, []))"

definition is_ascii :: "pystr \<Rightarrow> bool" where
  "is_ascii s \<longleftrightarrow> list_all (\<lambda>c. c < 128) s"

record split_result =
  sr_scheme :: pystr
  sr_netloc :: pystr
  sr_path :: pystr
  sr_query :: pystr
  sr_fragment :: pystr

definition urlsplit :: "urllib \<Rightarrow> pystr \<Rightarrow> py_error + split_result" where
  "urlsplit lib url0 =
     (let u1 = py_lstrip (\<lambda>c. c \<le> 32) url0;
          u2 = filter (\<lambda>c. c \<noteq> 9 \<and> c \<noteq> 13 \<and> c \<noteq> 10) u1;
          (scheme, u3) = split_scheme u2;
          (netloc, u4) = (if take 2 u3 = asc ''//'' then splitnetloc u3 else ([], u3))
      in if take 2 u3 = asc ''//'' \<and> ((91 \<in> set netloc) \<noteq> (93 \<in> set netloc))
         then Inl ValueError
         else if take 2 u3 = asc ''//'' \<and> 91 \<in> set netloc \<and> 93 \<in> set netloc \<and>
                 \<not> check_bracketed_netloc lib netloc
         then Inl ValueError
         else
           (let (u5, fragment) = cut_at 35 u4;
                (u6, query) = cut_at 63 u5
            in if netloc \<noteq> [] \<and> \<not> is_ascii netloc \<and> \<not> checknetloc lib netloc
               then Inl ValueError
               else Inr \<lparr>sr_scheme = scheme, sr_netloc = netloc, sr_path = u6,
                         sr_query = query, sr_fragment = fragment\<rparr>))"

text \<open>\<open>_splitparams\<close>, called on a path that contains a semicolon: the path without the
  parameters of its last segment.\<close>

definition last_segment_start :: "pystr \<Rightarrow> nat" where
  "last_segment_start u = length u - length (takeWhile (\<lambda>x. x \<noteq> 47) (rev u))"

definition splitparams_path :: "pystr \<Rightarrow> pystr" where
  "splitparams_path u =
     (let k = last_segment_start u
      in take k u @ takeWhile (\<lambda>c. c \<noteq> 59) (drop k u))"

text \<open>The fields of \<open>urlparse\<close> that \<open>normalize_url\<close> reads: scheme, netloc and path.\<close>

definition urlparse :: "urllib \<Rightarrow> pystr \<Rightarrow> py_error + pystr \<times> pystr \<times> pystr" where
  "urlparse lib u =
     (case urlsplit lib u of
        Inl e \<Rightarrow> Inl e
      | Inr r \<Rightarrow>
          if sr_scheme r \<in> set uses_params \<and> 59 \<in> set (sr_path r)
          then Inr (sr_scheme r, sr_netloc r, splitparams_path (sr_path r))
          else Inr (sr_scheme r, sr_netloc r, sr_path r))"

text \<open>\<open>urlunparse((scheme, netloc, path, '', '', ''))\<close>.\<close>

definition urlunparse :: "urllib \<Rightarrow> pystr \<Rightarrow> pystr \<Rightarrow> pystr \<Rightarrow> pystr" where
  "urlunparse lib scheme netloc path =
     (let marked =
            (if marks_double_slash lib
             then netloc \<noteq> [] \<or> (scheme \<noteq> [] \<and> scheme \<in> set uses_netloc)
                  \<or> take 2 path = asc ''//''
             else netloc \<noteq> [] \<or> (scheme \<noteq> [] \<and> scheme \<in> set uses_netloc
                  \<and> take 2 path \<noteq> asc ''//''));
          u = (if marked
               then asc ''//'' @ netloc
                    @ (if path \<noteq> [] \<and> take 1 path \<noteq> asc ''/'' then asc ''/'' @ path else path)
               else path)
      in if scheme \<noteq> [] then scheme @ asc '':'' @ u else u)"

subsection \<open>normalize\_url\<close>

text \<open>The branch taken when \<open>urlparse\<close> raises.\<close>

definition normalize_url_fallback :: "pystr \<Rightarrow> pystr" where
  "normalize_url_fallback s0 =
     (let s1 = py_rstrip (\<lambda>c. c = 47) (fst (split_once 63 (fst (split_once 35 s0))));
          s2 = py_replace (asc ''http://'') (asc ''https://'') s1
      in py_replace (asc ''https://www.'') (asc ''https://'') s2)"

definition normalize_url :: "urllib \<Rightarrow> pyval \<Rightarrow> pystr" where
  "normalize_url lib u =
     (let s = py_strip py_isspace (py_str u)
      in case urlparse lib s of
           Inr (p_scheme, p_netloc, p_path) \<Rightarrow>
             (let scheme = (if p_scheme \<noteq> [] then p_scheme else asc ''https'');
                  netloc0 = py_lower p_netloc;
                  netloc = (if prefix (asc ''www.'') netloc0 then drop 4 netloc0 else netloc0);
                  path = py_rstrip (\<lambda>c. c = 47) p_path
              in urlunparse lib scheme netloc path)
         | Inl e \<Rightarrow> normalize_url_fallback (py_str u))"

subsection \<open>Plain URLs\<close>

text \<open>
  The URLs \<open>scheme://host path tail\<close> on which the normalizer is characterized: a host of
  printable ASCII characters other than \<open>/ ? # [ ]\<close>; a path that is empty or starts with
  a slash and has no white space, semicolon, question mark or hash; a tail that is empty
  or starts a query or a fragment.
\<close>

definition host_char :: "nat \<Rightarrow> bool" where
  "host_char c \<longleftrightarrow> 33 \<le> c \<and> c \<le> 126 \<and> c \<noteq> 47 \<and> c \<noteq> 63 \<and> c \<noteq> 35 \<and> c \<noteq> 91 \<and> c \<noteq> 93"

definition path_char :: "nat \<Rightarrow> bool" where
  "path_char c \<longleftrightarrow> 32 < c \<and> \<not> py_isspace c \<and> c \<noteq> 63 \<and> c \<noteq> 35 \<and> c \<noteq> 59"

definition plain_path :: "pystr \<Rightarrow> bool" where
  "plain_path p \<longleftrightarrow> (p = [] \<or> hd p = 47) \<and> list_all path_char p"

definition url_tail :: "pystr \<Rightarrow> bool" where
  "url_tail t \<longleftrightarrow> t = [] \<or> hd t = 63 \<or> hd t = 35"

definition strip_www :: "pystr \<Rightarrow> pystr" where
  "strip_www h = (if prefix (asc ''www.'') h then drop 4 h else h)"

definition https_url :: "pystr \<Rightarrow> pystr \<Rightarrow> pystr \<Rightarrow> pystr" where
  "https_url host path tail = asc ''https://'' @ host @ path @ tail"

text \<open>The library with both checks passing, in the release 3.11.10.\<close>

definition lib0 :: urllib where
  "lib0 = \<lparr>check_bracketed_netloc = (\<lambda>h. True), checknetloc = (\<lambda>h. True),
           marks_double_slash = True\<rparr>"

section \<open>Record Store: deduplication (main.py, save\_and\_check)\<close>

text \<open>
  The key built for a row: the tuple over the key groups \<open>['source', 'external_id']\<close> and
  \<open>['url']\<close>, each group the tuple of its (name, value) pairs. The names are the same for
  every row, so the key is modelled by the values. The scrapers put a string or \<open>None\<close> in
  these columns.
\<close>

type_synonym dedup_key = "(pyval \<times> pyval) \<times> pyval"

definition dedup_key :: "'c row \<Rightarrow> dedup_key" where
  "dedup_key r = ((source r, external_id r), url r)"

text \<open>The loop over the rows with the set \<open>seen\<close>; the result is \<open>keep_rows\<close>.\<close>

fun dedup_loop :: "dedup_key set \<Rightarrow> 'c row list \<Rightarrow> 'c row list" where
  "dedup_loop seen [] = []"
| "dedup_loop seen (r # rs) =
     (if dedup_key r \<in> seen then dedup_loop seen rs
      else r # dedup_loop (insert (dedup_key r) seen) rs)"

text \<open>\<open>df['url'] = df['url'].map(normalize_url)\<close>.\<close>

definition normalize_urls :: "urllib \<Rightarrow> 'c row list \<Rightarrow> 'c row list" where
  "normalize_urls lib records = map (\<lambda>r. r\<lparr>url := PStr (normalize_url lib (url r))\<rparr>) records"

definition deduplicate :: "urllib \<Rightarrow> 'c row list \<Rightarrow> 'c row list" where
  "deduplicate lib records = dedup_loop {} (normalize_urls lib records)"

text \<open>The identity key as the specification words it: the pair (source, external\_id) if
  both are present, else the normalized url.\<close>

definition spec_key :: "'c row \<Rightarrow> (pyval \<times> pyval) + pyval" where
  "spec_key r =
     (if source r \<noteq> PNone \<and> external_id r \<noteq> PNone then Inl (source r, external_id r)
      else Inr (url r))"

section \<open>Zone Classifier (wb\_check\_coordinates.py, utils.py, settings.py)\<close>

subsection \<open>Service responses\<close>

text \<open>A decoded JSON document. An object holds the entries of the Python dict (one per
  key); numbers are modelled by rationals.\<close>

datatype json =
  JNull | JBool bool | JNum rat | JStr pystr | JArr "json list" | JObj "(pystr \<times> json) list"

fun json_truthy :: "json \<Rightarrow> bool" where
  "json_truthy JNull = False"
| "json_truthy (JBool b) = b"
| "json_truthy (JNum x) = (x \<noteq> 0)"
| "json_truthy (JStr s) = (s \<noteq> [])"
| "json_truthy (JArr xs) = (xs \<noteq> [])"
| "json_truthy (JObj kvs) = (kvs \<noteq> [])"

text \<open>\<open>d.get(key, default)\<close>: only a dict has the method.\<close>

fun json_get :: "json \<Rightarrow> pystr \<Rightarrow> json \<Rightarrow> py_error + json" where
  "json_get (JObj kvs) key dflt = (case map_of kvs key of Some v \<Rightarrow> Inr v | None \<Rightarrow> Inr dflt)"
| "json_get j key dflt = Inl AttributeError"

text \<open>\<open>s in response\<close> for a string \<open>s\<close>: key membership for a dict, element membership
  for a list, substring for a string; the other values are not iterable.\<close>

fun json_contains :: "pystr \<Rightarrow> json \<Rightarrow> py_error + bool" where
  "json_contains s (JObj kvs) = Inr (s \<in> set (map fst kvs))"
| "json_contains s (JArr xs) = Inr (JStr s \<in> set xs)"
| "json_contains s (JStr t) = Inr (py_in s t)"
| "json_contains s j = Inl TypeError"

subsection \<open>Settings and literals\<close>

definition COLUMN_COORDINATES :: nat where "COLUMN_COORDINATES = 23"
definition COLUMN_COLOR :: nat where "COLUMN_COLOR = 26"
definition AREA :: pystr where "AREA = asc ''40''"

definition purple_zone :: pystr where
  "purple_zone = [1092, 1080, 1086, 1083, 1077, 1090, 1086, 1074, 1072, 1103]"

definition pink_zone :: pystr where
  "pink_zone = [1088, 1086, 1079, 1086, 1074, 1072, 1103]"

definition green_zone :: pystr where
  "green_zone = [1079, 1077, 1083, 1077, 1085, 1072, 1103]"

definition red_zone :: pystr where
  "red_zone = [1082, 1088, 1072, 1089, 1085, 1072, 1103]"

definition red_description :: pystr where
  "red_description =
     [1058, 1086, 1095, 1082, 1072, 32, 1087, 1086, 1087, 1072, 1076, 1072, 1077, 1090, 32,
      1074, 32, 1082, 1088, 1072, 1089, 1085, 1091, 1102, 32, 1079, 1086, 1085, 1091]"

definition occupied_status :: pystr where
  "occupied_status =
     [1089, 32, 1076, 1077, 1081, 1089, 1090, 1074, 1091, 1102, 1097, 1080, 1084, 32, 1080,
      1083, 1080, 32, 1086, 1090, 1082, 1088, 1099, 1074, 1072, 1102, 1097, 1080, 1084, 1089,
      1103, 32, 1055, 1042, 1047]"

definition occupied_description :: pystr where
  "occupied_description =
     [1058, 1086, 1095, 1082, 1072, 32, 1087, 1086, 1087, 1072, 1076, 1072, 1077, 1090, 32,
      1074, 32, 1079, 1076, 1072, 1085, 1080, 1077, 32] @ occupied_status"

definition nothing_found :: pystr where
  "nothing_found =
     [1055, 1086, 32, 1042, 1072, 1096, 1077, 1084, 1091, 32, 1079, 1072, 1087, 1088, 1086,
      1089, 1091, 32, 1085, 1080, 1095, 1077, 1075, 1086, 32, 1085, 1077, 32, 1085, 1072, 1081,
      1076, 1077, 1085, 1086]"

definition NA :: pystr where "NA = asc ''N/A''"

subsection \<open>The request (utils.py, fetch\_page)\<close>

text \<open>
  The network is the oracle \<open>http\<close>: for a URL and the number of the attempt it gives the
  decoded body, or \<open>None\<close> when \<open>requests.get(...).json()\<close> raises. \<open>fetch_attempts\<close> is
  the loop \<open>for try_get in range(1, 6)\<close>, with the attempts left as its last argument.
\<close>

type_synonym http = "pystr \<Rightarrow> nat \<Rightarrow> json option"

fun fetch_attempts :: "http \<Rightarrow> pystr \<Rightarrow> nat \<Rightarrow> nat \<Rightarrow> json option" where
  "fetch_attempts http u try_get 0 = None"
| "fetch_attempts http u try_get (Suc n) =
     (case http u try_get of
        None \<Rightarrow> fetch_attempts http u (Suc try_get) n
      | Some response \<Rightarrow>
          (case json_contains nothing_found response of
             Inl e \<Rightarrow> fetch_attempts http u (Suc try_get) n
           | Inr True \<Rightarrow> None
           | Inr False \<Rightarrow> Some response))"

definition fetch_page :: "http \<Rightarrow> pystr \<Rightarrow> json option" where
  "fetch_page http u = fetch_attempts http u 1 5"

subsection \<open>check\_coordinates\<close>

definition check_url :: "pystr \<Rightarrow> pystr" where
  "check_url coordinates =
     asc ''https://pvz-map-backend.wildberries.ru/api/v1/map/check-point?point.longitude=''
     @ parse_lng coordinates @ asc ''&point.latitude='' @ parse_lat coordinates
     @ asc ''&area='' @ AREA"

text \<open>The body of the \<open>try\<close>: \<open>Inr (Some c)\<close> is \<open>return c\<close>, \<open>Inr None\<close> is leaving the block
  without a return, \<open>Inl e\<close> is an exception.\<close>

definition bind_err :: "'e + 'a \<Rightarrow> ('a \<Rightarrow> 'e + 'b) \<Rightarrow> 'e + 'b" where
  "bind_err m f = (case m of Inl e \<Rightarrow> Inl e | Inr x \<Rightarrow> f x)"

definition zone_part :: "json \<Rightarrow> py_error + pystr option" where
  "zone_part zone_info =
     bind_err (json_get zone_info (asc ''text_code'') JNull) (\<lambda>zone_text_code.
       if zone_text_code = JStr (asc ''green_zone'') then Inr (Some green_zone) else Inr None)"

definition parse_response :: "json \<Rightarrow> py_error + pystr option" where
  "parse_response response =
     bind_err (json_get response (asc ''description'') (JStr [])) (\<lambda>description.
       if description = JStr red_description then Inr (Some red_zone)
       else if description = JStr occupied_description then Inr (Some occupied_status)
       else
         bind_err (json_get response (asc ''point_info'') (JObj [])) (\<lambda>point_info.
         bind_err (json_get point_info (asc ''zone_info'') (JObj [])) (\<lambda>zone_info.
         bind_err (json_get point_info (asc ''general_info'') (JObj [])) (\<lambda>general_info.
         bind_err (json_get general_info (asc ''priority_zone_info'') (JObj []))
           (\<lambda>priority_zone_info.
             if json_truthy priority_zone_info then
               bind_err (json_get priority_zone_info (asc ''text_code'') JNull) (\<lambda>text_code.
                 if text_code = JStr (asc ''new_build_zones'') then Inr (Some pink_zone)
                 else if text_code = JStr (asc ''load_predict'') then Inr (Some purple_zone)
                 else zone_part zone_info)
             else zone_part zone_info)))))"

text \<open>What \<open>check_coordinates\<close> returns once the response is there.\<close>

definition classify :: "json option \<Rightarrow> pystr" where
  "classify resp =
     (case resp of
        None \<Rightarrow> asc ''ERROR''
      | Some response \<Rightarrow>
          if \<not> json_truthy response then asc ''ERROR''
          else (case parse_response response of
                  Inr (Some c) \<Rightarrow> c
                | _ \<Rightarrow> NA))"

text \<open>\<open>check_coordinates\<close>: a truthy cell value that is not a string has no \<open>split\<close>.\<close>

definition check_coordinates :: "http \<Rightarrow> pyval \<Rightarrow> py_error + pystr" where
  "check_coordinates http coordinates =
     (case coordinates of
        PStr c \<Rightarrow> Inr (classify (fetch_page http (check_url c)))
      | _ \<Rightarrow> Inl AttributeError)"

subsection \<open>The worksheet and the loop over its rows\<close>

datatype fill = PURPLE_FILL | PINK_FILL

text \<open>The open workbook's first sheet: values and fills by (row, column), and the extent
  of the cells that exist. \<open>ws.cell(r, c)\<close> creates the cell when it is not there.\<close>

record worksheet =
  cell_value :: "nat \<times> nat \<Rightarrow> pyval"
  cell_fill :: "nat \<times> nat \<Rightarrow> fill option"
  max_row :: nat
  max_column :: nat

definition ws_cell :: "nat \<Rightarrow> nat \<Rightarrow> worksheet \<Rightarrow> worksheet" where
  "ws_cell r c ws = ws\<lparr>max_row := max (max_row ws) r, max_column := max (max_column ws) c\<rparr>"

fun fill_row :: "nat \<Rightarrow> fill \<Rightarrow> nat list \<Rightarrow> worksheet \<Rightarrow> worksheet" where
  "fill_row r f [] ws = ws"
| "fill_row r f (c # cs) ws =
     fill_row r f cs ((ws_cell r c ws)\<lparr>cell_fill := (cell_fill ws)((r, c) := Some f)\<rparr>)"

text \<open>\<open>set_status_to_table\<close>, on the sheet in memory (the save to disk that follows is not
  modelled; its failure is caught and leaves the sheet in memory as it is).\<close>

definition set_status_to_table :: "worksheet \<Rightarrow> nat \<Rightarrow> pystr \<Rightarrow> worksheet" where
  "set_status_to_table ws row_num color =
     (let selected_fill =
            (if color = purple_zone then Some PURPLE_FILL
             else if color = pink_zone then Some PINK_FILL
             else None);
          ws1 = (case selected_fill of
                   None \<Rightarrow> ws
                 | Some f \<Rightarrow> fill_row row_num f [1 ..< max_column ws + 1] ws);
          ws2 = ws_cell row_num COLUMN_COLOR ws1
      in ws2\<lparr>cell_value := (cell_value ws2)((row_num, COLUMN_COLOR) := PStr color)\<rparr>)"

text \<open>The classifier's state: the sheet, and the URLs requested so far.\<close>

record classifier_state =
  sheet :: worksheet
  calls :: "pystr list"

definition is_terminal :: "pyval \<Rightarrow> bool" where
  "is_terminal prev_color \<longleftrightarrow>
     truthy prev_color \<and> (prev_color = PStr purple_zone \<or> prev_color = PStr pink_zone)"

definition color_to_write :: "pystr \<Rightarrow> pystr" where
  "color_to_write color =
     (if color = [] \<or> color = asc ''ERROR'' \<or> color = asc ''NO_POINT_INFO'' then NA
      else color)"

text \<open>The body of the loop of \<open>main\<close> for one row number (the pause is not modelled).\<close>

definition process_row :: "http \<Rightarrow> nat \<Rightarrow> classifier_state \<Rightarrow> py_error + classifier_state" where
  "process_row http row_num st =
     (let ws1 = ws_cell row_num COLUMN_COORDINATES (sheet st);
          coordinates = cell_value ws1 (row_num, COLUMN_COORDINATES)
      in if \<not> truthy coordinates then Inr (st\<lparr>sheet := ws1\<rparr>)
         else
           (let ws2 = ws_cell row_num 2 ws1;
                prev_color = cell_value ws2 (row_num, 2)
            in if is_terminal prev_color then Inr (st\<lparr>sheet := ws2\<rparr>)
               else
                 (case check_coordinates http coordinates of
                    Inl e \<Rightarrow> Inl e
                  | Inr color \<Rightarrow>
                      Inr \<lparr>sheet = set_status_to_table ws2 row_num (color_to_write color),
                           calls = calls st @ [check_url (py_str coordinates)]\<rparr>)))"

fun main_loop :: "http \<Rightarrow> nat list \<Rightarrow> classifier_state \<Rightarrow> py_error + classifier_state" where
  "main_loop http [] st = Inr st"
| "main_loop http (row_num # rows) st =
     (case process_row http row_num st of
        Inl e \<Rightarrow> Inl e
      | Inr st' \<Rightarrow> main_loop http rows st')"

text \<open>\<open>main\<close> on an opened workbook: rows 2 to \<open>ws.max_row\<close>.\<close>

definition classifier_main :: "http \<Rightarrow> worksheet \<Rightarrow> py_error + classifier_state" where
  "classifier_main http ws = main_loop http [2 ..< max_row ws + 1] \<lparr>sheet = ws, calls = []\<rparr>"

subsection \<open>The response table of the specification\<close>

text \<open>
  A service response of the documented shape: a description, and optionally a
  priority-zone code and a general zone code in the structured part.
\<close>

definition zone_response :: "pystr \<Rightarrow> pystr option \<Rightarrow> pystr option \<Rightarrow> json" where
  "zone_response description priority_code zone_code =
     JObj [(asc ''description'', JStr description),
           (asc ''point_info'',
            JObj [(asc ''zone_info'',
                   JObj (case zone_code of None \<Rightarrow> [] | Some z \<Rightarrow> [(asc ''text_code'', JStr z)])),
                  (asc ''general_info'',
                   JObj (case priority_code of
                           None \<Rightarrow> []
                         | Some p \<Rightarrow> [(asc ''priority_zone_info'',
                                      JObj [(asc ''text_code'', JStr p)])]))])]"

text \<open>The classification as the specification words it: the two descriptions first, then
  the priority-zone code before the general zone code, otherwise not-applicable.\<close>

definition spec_classification :: "pystr \<Rightarrow> pystr option \<Rightarrow> pystr option \<Rightarrow> pystr" where
  "spec_classification description priority_code zone_code =
     (if description = red_description then red_zone
      else if description = occupied_description then occupied_status
      else if priority_code = Some (asc ''new_build_zones'') then pink_zone
      else if priority_code = Some (asc ''load_predict'') then purple_zone
      else if zone_code = Some (asc ''green_zone'') then green_zone
      else NA)"

subsection \<open>The table on an arbitrary response\<close>

text \<open>The value found in a document by following a path of keys through nested
  objects, if every step is there.\<close>

fun json_path :: "json \<Rightarrow> pystr list \<Rightarrow> json option" where
  "json_path j [] = Some j"
| "json_path (JObj kvs) (k # ks) =
     (case map_of kvs k of None \<Rightarrow> None | Some v \<Rightarrow> json_path v ks)"
| "json_path j (k # ks) = None"

text \<open>The string found at a path, if there is one.\<close>

definition string_at :: "json \<Rightarrow> pystr list \<Rightarrow> pystr option" where
  "string_at j ks = (case json_path j ks of Some (JStr s) \<Rightarrow> Some s | _ \<Rightarrow> None)"

text \<open>The signals the specification names, read off a response: its description, the
  priority-zone code and the general zone code of its structured part.\<close>

definition response_classification :: "json \<Rightarrow> pystr" where
  "response_classification j =
     spec_classification
       (case string_at j [asc ''description''] of Some d \<Rightarrow> d | None \<Rightarrow> [])
       (string_at j [asc ''point_info'', asc ''general_info'', asc ''priority_zone_info'',
                     asc ''text_code''])
       (string_at j [asc ''point_info'', asc ''zone_info'', asc ''text_code''])"

subsection \<open>Attempts and rows\<close>

text \<open>An attempt that the retry loop passes over: the request or the decoding raises, or
  the membership test on the decoded body does.\<close>

definition attempt_fails :: "http \<Rightarrow> pystr \<Rightarrow> nat \<Rightarrow> bool" where
  "attempt_fails http u k \<longleftrightarrow>
     (case http u k of
        None \<Rightarrow> True
      | Some j \<Rightarrow> (case json_contains nothing_found j of Inl e \<Rightarrow> True | Inr b \<Rightarrow> False))"

text \<open>The coordinate note of a row, and the rows of a sheet that trigger a lookup: the
  note is a non-empty string and column 2 holds no terminal value.\<close>

definition row_coordinates :: "worksheet \<Rightarrow> nat \<Rightarrow> pystr" where
  "row_coordinates ws r =
     (case cell_value ws (r, COLUMN_COORDINATES) of PStr c \<Rightarrow> c | _ \<Rightarrow> [])"

definition triggers_lookup :: "worksheet \<Rightarrow> nat \<Rightarrow> bool" where
  "triggers_lookup ws r \<longleftrightarrow>
     (case cell_value ws (r, COLUMN_COORDINATES) of PStr c \<Rightarrow> c \<noteq> [] | _ \<Rightarrow> False)
     \<and> \<not> is_terminal (cell_value ws (r, 2))"

text \<open>A row whose coordinate cell is empty or holds a string.\<close>

definition text_or_blank :: "worksheet \<Rightarrow> nat \<Rightarrow> bool" where
  "text_or_blank ws r \<longleftrightarrow>
     (case cell_value ws (r, COLUMN_COORDINATES) of PStr c \<Rightarrow> True | v \<Rightarrow> \<not> truthy v)"

text \<open>The classification the run writes for a row that triggers a lookup.\<close>

definition written_classification :: "http \<Rightarrow> worksheet \<Rightarrow> nat \<Rightarrow> pystr" where
  "written_classification http ws r =
     color_to_write (classify (fetch_page http (check_url (row_coordinates ws r))))"

section \<open>Coordinate Resolver (main.py, scrape\_cian, lines 266 to 283)\<close>

text \<open>
  A fetched detail page: the body text, and for each JSON-LD script of the markup the value
  \<open>json.loads\<close> gives for it (\<open>None\<close> when it raises). Coordinates are rationals.
  \<open>float\<close> on a string is the parameter \<open>fs\<close> (\<open>None\<close> when it raises \<open>ValueError\<close>).
\<close>

record page =
  page_text :: pystr
  ld_scripts :: "json option list"

type_synonym float_of_str = "pystr \<Rightarrow> rat option"

text \<open>\<open>float(v)\<close> for a decoded JSON value; \<open>None\<close> stands for the exception.\<close>

fun py_float :: "float_of_str \<Rightarrow> json \<Rightarrow> rat option" where
  "py_float fs (JNum x) = Some x"
| "py_float fs (JBool b) = Some (if b then 1 else 0)"
| "py_float fs (JStr s) = fs s"
| "py_float fs j = None"

text \<open>\<open>d.get(key)\<close> on a dict, with \<open>JNull\<close> for Python's \<open>None\<close>.\<close>

definition dict_get :: "(pystr \<times> json) list \<Rightarrow> pystr \<Rightarrow> json" where
  "dict_get kvs key = (case map_of kvs key of Some v \<Rightarrow> v | None \<Rightarrow> JNull)"

text \<open>
  The test of one script: the entries of the \<open>geo\<close> dict when \<open>jd\<close> is a dict, its \<open>geo\<close>
  (or \<open>{}\<close> when that is falsy) is a dict, and both coordinates are truthy. A \<open>jd\<close> that is
  not a dict has no \<open>get\<close>: the exception is caught and the loop continues, as it does
  when the test is false.
\<close>

definition geo_entries :: "json \<Rightarrow> (pystr \<times> json) list option" where
  "geo_entries jd =
     (case jd of
        JObj kvs \<Rightarrow>
          (let g = dict_get kvs (asc ''geo'');
               geo = (if json_truthy g then g else JObj [])
           in case geo of
                JObj gkvs \<Rightarrow>
                  if json_truthy (dict_get gkvs (asc ''latitude''))
                     \<and> json_truthy (dict_get gkvs (asc ''longitude''))
                  then Some gkvs else None
              | _ \<Rightarrow> None)
      | _ \<Rightarrow> None)"

text \<open>The loop over the scripts, on the pair \<open>(lat, lng)\<close>. A latitude that converts is
  assigned before the longitude is tried.\<close>

fun scan_scripts ::
  "float_of_str \<Rightarrow> json option list \<Rightarrow> rat option \<times> rat option \<Rightarrow> rat option \<times> rat option" where
  "scan_scripts fs [] st = st"
| "scan_scripts fs (None # ss) st = scan_scripts fs ss st"
| "scan_scripts fs (Some jd # ss) (la, lo) =
     (case geo_entries jd of
        None \<Rightarrow> scan_scripts fs ss (la, lo)
      | Some gkvs \<Rightarrow>
          (case py_float fs (dict_get gkvs (asc ''latitude'')) of
             None \<Rightarrow> scan_scripts fs ss (la, lo)
           | Some x \<Rightarrow>
               (case py_float fs (dict_get gkvs (asc ''longitude'')) of
                  None \<Rightarrow> scan_scripts fs ss (Some x, lo)
                | Some y \<Rightarrow> (Some x, Some y))))"

subsection \<open>The inline pattern\<close>

text \<open>
  \<open>re.search(r'"latitude"\s*:\s*([0-9.]+).*?"longitude"\s*:\s*([0-9.]+)', text, re.S)\<close>.
  \<open>match_key\<close> is one attempt of \<open>"key"\s*:\s*([0-9.]+)\<close> at the head of a string: the group
  (the longest run, which is what the search ends with) and the rest.
\<close>

definition num_char :: "nat \<Rightarrow> bool" where
  "num_char c \<longleftrightarrow> (48 \<le> c \<and> c \<le> 57) \<or> c = 46"

definition match_key :: "pystr \<Rightarrow> pystr \<Rightarrow> (pystr \<times> pystr) option" where
  "match_key key s =
     (if prefix key s then
        (case dropWhile py_isspace (drop (length key) s) of
           [] \<Rightarrow> None
         | c # r \<Rightarrow>
             if c = 58 then
               (let r' = dropWhile py_isspace r
                in if takeWhile num_char r' \<noteq> []
                   then Some (takeWhile num_char r', dropWhile num_char r') else None)
             else None)
      else None)"

definition latitude_key :: pystr where
  "latitude_key = [34] @ asc ''latitude'' @ [34]"

definition longitude_key :: pystr where
  "longitude_key = [34] @ asc ''longitude'' @ [34]"

text \<open>The first place, from the left, where the longitude part matches.\<close>

fun find_longitude :: "pystr \<Rightarrow> pystr option" where
  "find_longitude [] = None"
| "find_longitude (c # cs) =
     (case match_key longitude_key (c # cs) of
        Some (g, r) \<Rightarrow> Some g
      | None \<Rightarrow> find_longitude cs)"

text \<open>The search: the leftmost start at which the whole pattern matches.\<close>

fun coord_search :: "pystr \<Rightarrow> (pystr \<times> pystr) option" where
  "coord_search [] = None"
| "coord_search (c # cs) =
     (case match_key latitude_key (c # cs) of
        None \<Rightarrow> coord_search cs
      | Some (g1, r) \<Rightarrow>
          (case find_longitude r of
             None \<Rightarrow> coord_search cs
           | Some g2 \<Rightarrow> Some (g1, g2)))"

subsection \<open>The two steps together\<close>

text \<open>The pair \<open>(lat, lng)\<close> after both steps. \<open>Inl ValueError\<close>: \<open>float\<close> raised on a group of
  the pattern; the handler around the link's processing skips the link.\<close>

definition resolve_coordinates ::
  "float_of_str \<Rightarrow> page \<Rightarrow> py_error + rat option \<times> rat option" where
  "resolve_coordinates fs pg =
     (case scan_scripts fs (ld_scripts pg) (None, None) of
        (Some x, Some y) \<Rightarrow> Inr (Some x, Some y)
      | (la, lo) \<Rightarrow>
          (case coord_search (page_text pg) of
             None \<Rightarrow> Inr (la, lo)
           | Some (g1, g2) \<Rightarrow>
               (case fs g1 of
                  None \<Rightarrow> Inl ValueError
                | Some x \<Rightarrow>
                    (case fs g2 of
                       None \<Rightarrow> Inl ValueError
                     | Some y \<Rightarrow> Inr (Some x, Some y)))))"

subsection \<open>The structured scan, as the specification words it\<close>

text \<open>The pair a script offers: its geo block has both coordinates, truthy, and \<open>float\<close>
  accepts both.\<close>

definition geo_pair :: "float_of_str \<Rightarrow> json option \<Rightarrow> (rat \<times> rat) option" where
  "geo_pair fs script =
     (case script of
        None \<Rightarrow> None
      | Some jd \<Rightarrow>
          (case geo_entries jd of
             None \<Rightarrow> None
           | Some gkvs \<Rightarrow>
               (case (py_float fs (dict_get gkvs (asc ''latitude'')),
                      py_float fs (dict_get gkvs (asc ''longitude''))) of
                  (Some x, Some y) \<Rightarrow> Some (x, y)
                | _ \<Rightarrow> None)))"

text \<open>The pair of the first script that offers one.\<close>

fun first_geo_pair :: "float_of_str \<Rightarrow> json option list \<Rightarrow> (rat \<times> rat) option" where
  "first_geo_pair fs [] = None"
| "first_geo_pair fs (s # ss) =
     (case geo_pair fs s of Some p \<Rightarrow> Some p | None \<Rightarrow> first_geo_pair fs ss)"

subsection \<open>float on the strings the pattern's groups hold\<close>

text \<open>
  A string of digits and dots is a float literal when it has at least one digit and at
  most one dot. \<open>decimal_float\<close> is \<open>float\<close> on such strings and rejects every other
  string; it instantiates \<open>fs\<close> in the concrete runs.
\<close>

definition digit_char :: "nat \<Rightarrow> bool" where
  "digit_char c \<longleftrightarrow> 48 \<le> c \<and> c \<le> 57"

fun digits_value :: "nat \<Rightarrow> pystr \<Rightarrow> nat" where
  "digits_value acc [] = acc"
| "digits_value acc (c # cs) = digits_value (10 * acc + (c - 48)) cs"

definition decimal_float :: float_of_str where
  "decimal_float s =
     (let a = takeWhile digit_char s; r = dropWhile digit_char s
      in case r of
           [] \<Rightarrow> if a \<noteq> [] then Some (of_nat (digits_value 0 a)) else None
         | c # b \<Rightarrow>
             if c = 46 \<and> list_all digit_char b \<and> (a \<noteq> [] \<or> b \<noteq> [])
             then Some (of_nat (digits_value 0 a) + of_nat (digits_value 0 b) / 10 ^ length b)
             else None)"

section \<open>Source Scrapers: the control structure (main.py, scrape\_cian and scrape\_avito)\<close>

text \<open>
  What differs between the two scrapers (URL templates, selectors, the extraction of links
  and fields) is outside the control structure and is given by a record of oracles:
  \<^item> \<open>get_page p\<close>: the search-results request for page \<open>p\<close> answers 403 or 429; or raises
    (the request itself, \<open>raise_for_status\<close>, or the extraction); or yields the links
    collected from the page, before duplicates are removed;
  \<^item> \<open>get_item p link attempt\<close>: the request for a detail page answers 403 or 429; or
    another status that \<open>raise_for_status\<close> rejects; or raises; or succeeds with a body;
  \<^item> \<open>build_record link body\<close>: the record assembled from a fetched page, \<open>None\<close> when
    the area is out of bounds or an exception ends the processing of the link.
  A run is described by its trace of events. The random part of every sleep is left out.
\<close>

datatype page_outcome = PageBlocked | PageFailed | PageLinks "pystr list"

datatype item_outcome = ItemBlocked | ItemFailed | ItemRaised | ItemOk pystr

record 'r site =
  get_page :: "nat \<Rightarrow> page_outcome"
  get_item :: "nat \<Rightarrow> pystr \<Rightarrow> nat \<Rightarrow> item_outcome"
  build_record :: "pystr \<Rightarrow> pystr \<Rightarrow> 'r option"

datatype 'r event =
  GetPage nat | Pause | GetItem nat pystr nat | Backoff nat | Append 'r

definition ITEM_RETRIES :: nat where "ITEM_RETRIES = 3"

text \<open>\<open>list(dict.fromkeys(links))\<close>: the first occurrence of every link, in order.\<close>

fun fromkeys :: "pystr list \<Rightarrow> pystr list \<Rightarrow> pystr list" where
  "fromkeys seen [] = []"
| "fromkeys seen (l # ls) =
     (if l \<in> set seen then fromkeys seen ls else l # fromkeys (l # seen) ls)"

subsection \<open>scrape\_cian\<close>

text \<open>The loop \<open>for attempt in range(1, ITEM_RETRIES + 1)\<close>, with the attempts left as the
  last argument; the result is \<open>resp_ok\<close>'s body, if any.\<close>

fun cian_attempts ::
  "'r site \<Rightarrow> nat \<Rightarrow> pystr \<Rightarrow> nat \<Rightarrow> nat \<Rightarrow> 'r event list \<times> pystr option" where
  "cian_attempts w p link attempt 0 = ([], None)"
| "cian_attempts w p link attempt (Suc n) =
     (case get_item w p link attempt of
        ItemBlocked \<Rightarrow>
          (let back = min (2 ^ attempt) 8; (es, r) = cian_attempts w p link (Suc attempt) n
           in (GetItem p link attempt # Backoff back # es, r))
      | ItemFailed \<Rightarrow>
          (let back = min (2 ^ attempt) 8; (es, r) = cian_attempts w p link (Suc attempt) n
           in (GetItem p link attempt # Backoff back # es, r))
      | ItemRaised \<Rightarrow> ([GetItem p link attempt], None)
      | ItemOk body \<Rightarrow> ([GetItem p link attempt], Some body))"

definition cian_link :: "'r site \<Rightarrow> nat \<Rightarrow> pystr \<Rightarrow> 'r event list" where
  "cian_link w p link =
     (let (es, resp_ok) = cian_attempts w p link 1 ITEM_RETRIES
      in Pause # es @
         (case resp_ok of
            None \<Rightarrow> []
          | Some body \<Rightarrow>
              (case build_record w link body of None \<Rightarrow> [] | Some row \<Rightarrow> [Append row])))"

text \<open>The loop \<open>for p in range(1, pages + 1)\<close> from page \<open>p\<close> on, with the pages left and the
  counter \<open>empty_pages\<close>.\<close>

fun cian_pages :: "'r site \<Rightarrow> nat \<Rightarrow> nat \<Rightarrow> nat \<Rightarrow> 'r event list" where
  "cian_pages w p 0 empty_pages = []"
| "cian_pages w p (Suc n) empty_pages =
     GetPage p #
     (case get_page w p of
        PageBlocked \<Rightarrow> []
      | PageFailed \<Rightarrow> []
      | PageLinks raw \<Rightarrow>
          (let links = fromkeys [] raw
           in if links = [] then
                (if 3 \<le> empty_pages + 1 then []
                 else cian_pages w (p + 1) n (empty_pages + 1))
              else concat (map (cian_link w p) (take 40 links)) @ cian_pages w (p + 1) n 0))"

definition scrape_cian :: "'r site \<Rightarrow> nat \<Rightarrow> 'r event list" where
  "scrape_cian w pages = cian_pages w 1 pages 0"

subsection \<open>scrape\_avito\<close>

fun avito_attempts ::
  "'r site \<Rightarrow> nat \<Rightarrow> pystr \<Rightarrow> nat \<Rightarrow> nat \<Rightarrow> 'r event list \<times> pystr option" where
  "avito_attempts w p link attempt 0 = ([], None)"
| "avito_attempts w p link attempt (Suc n) =
     (case get_item w p link attempt of
        ItemBlocked \<Rightarrow>
          (let back = min (2 ^ attempt) 8; (es, r) = avito_attempts w p link (Suc attempt) n
           in (GetItem p link attempt # Backoff back # es, r))
      | ItemFailed \<Rightarrow>
          (let back = min (2 ^ attempt) 8; (es, r) = avito_attempts w p link (Suc attempt) n
           in (GetItem p link attempt # Backoff back # es, r))
      | ItemRaised \<Rightarrow> ([GetItem p link attempt], None)
      | ItemOk body \<Rightarrow> ([GetItem p link attempt], Some body))"

definition avito_link :: "'r site \<Rightarrow> nat \<Rightarrow> pystr \<Rightarrow> 'r event list" where
  "avito_link w p link =
     (let (es, resp_ok) = avito_attempts w p link 1 ITEM_RETRIES
      in Pause # es @
         (case resp_ok of
            None \<Rightarrow> []
          | Some body \<Rightarrow>
              (case build_record w link body of None \<Rightarrow> [] | Some row \<Rightarrow> [Append row])))"

fun avito_pages :: "'r site \<Rightarrow> nat \<Rightarrow> nat \<Rightarrow> nat \<Rightarrow> 'r event list" where
  "avito_pages w p 0 empty_pages = []"
| "avito_pages w p (Suc n) empty_pages =
     GetPage p #
     (case get_page w p of
        PageBlocked \<Rightarrow> []
      | PageFailed \<Rightarrow> []
      | PageLinks raw \<Rightarrow>
          (let links = fromkeys [] raw
           in if links = [] then
                (if 3 \<le> empty_pages + 1 then []
                 else avito_pages w (p + 1) n (empty_pages + 1))
              else concat (map (avito_link w p) (take 40 links)) @ avito_pages w (p + 1) n 0))"

definition scrape_avito :: "'r site \<Rightarrow> nat \<Rightarrow> 'r event list" where
  "scrape_avito w pages = avito_pages w 1 pages 0"

subsection \<open>Reading a trace\<close>

definition pages_requested :: "'r event list \<Rightarrow> nat list" where
  "pages_requested es = concat (map (\<lambda>e. case e of GetPage q \<Rightarrow> [q] | _ \<Rightarrow> []) es)"

definition backoffs :: "'r event list \<Rightarrow> nat list" where
  "backoffs es = concat (map (\<lambda>e. case e of Backoff b \<Rightarrow> [b] | _ \<Rightarrow> []) es)"

definition item_requests :: "'r event list \<Rightarrow> (nat \<times> pystr \<times> nat) list" where
  "item_requests es =
     concat (map (\<lambda>e. case e of GetItem q l k \<Rightarrow> [(q, l, k)] | _ \<Rightarrow> []) es)"

text \<open>A page with no link, as the loop sees it.\<close>

definition empty_page :: "'r site \<Rightarrow> nat \<Rightarrow> bool" where
  "empty_page w q \<longleftrightarrow> (\<exists>raw. get_page w q = PageLinks raw \<and> fromkeys [] raw = [])"

definition page_links :: "'r site \<Rightarrow> nat \<Rightarrow> pystr list" where
  "page_links w q = (case get_page w q of PageLinks raw \<Rightarrow> fromkeys [] raw | _ \<Rightarrow> [])"

section \<open>Concrete inputs used by the witnesses\<close>

text \<open>A row of the table with no address, no title and no coordinates.\<close>

definition row_without_address :: "rat row" where
  "row_without_address =
     \<lparr>source = PStr (asc ''cian''), external_id = PNone,
      url = PStr (asc ''https://cian.ru/rent/1''), title = PNone, address_raw = PNone,
      address_formatted = PNone, city = PStr [1052, 1086, 1089, 1082, 1074, 1072],
      lat = None, lng = None, notes_col = PNone\<rparr>"

text \<open>Two rows of one source with the same external id (the digits of the link) and
  different URLs, and a third that repeats the first with another spelling of its URL.\<close>

definition office_row :: "rat row" where
  "office_row =
     \<lparr>source = PStr (asc ''cian''), external_id = PStr (asc ''123''),
      url = PStr (asc ''https://www.cian.ru/rent/office/123/''), title = PNone,
      address_raw = PNone, address_formatted = PNone, city = PNone,
      lat = None, lng = None, notes_col = PNone\<rparr>"

definition commercial_row :: "rat row" where
  "commercial_row = office_row\<lparr>url := PStr (asc ''https://www.cian.ru/rent/commercial/123/'')\<rparr>"

definition office_row_again :: "rat row" where
  "office_row_again = office_row\<lparr>url := PStr (asc ''https://CIAN.ru/rent/office/123?from=map'')\<rparr>"

text \<open>A sheet whose row 2 was classified purple by an earlier run: column 2 holds the
  listing's external id, column 23 the coordinate note, column 26 the classification, and
  the cells of the row carry the purple fill.\<close>

definition purple_row_sheet :: worksheet where
  "purple_row_sheet =
     \<lparr>cell_value = (\<lambda>rc. PNone)
        ((2, 2) := PStr (asc ''311739319''),
         (2, 23) := PStr (coord_note (asc ''55.75'') (asc ''37.61'')),
         (2, 26) := PStr purple_zone),
      cell_fill = (\<lambda>(r, c). if r = 2 \<and> 1 \<le> c \<and> c \<le> 23 then Some PURPLE_FILL else None),
      max_row = 2, max_column = 26\<rparr>"

text \<open>A service that answers every request with a green-zone response, and one whose
  every request fails.\<close>

definition green_service :: http where
  "green_service = (\<lambda>u k. Some (zone_response [] None (Some (asc ''green_zone''))))"

definition dead_service :: http where
  "dead_service = (\<lambda>u k. None)"

text \<open>The inline pattern as it stands in a page body, and two detail pages. Both hold an
  inline script with the coordinates (55.5, 37.5) before their JSON-LD script; the geo
  block of the first page is a point on the equator, (0, 10), that of the second is
  (55.75, 37.61).\<close>

definition inline_coords :: "pystr \<Rightarrow> pystr \<Rightarrow> pystr" where
  "inline_coords a b = latitude_key @ asc '':'' @ a @ asc '','' @ longitude_key @ asc '':'' @ b"

definition page_body :: "pystr \<Rightarrow> pystr \<Rightarrow> pystr" where
  "page_body a b =
     asc ''<script>var p={'' @ inline_coords (asc ''55.5'') (asc ''37.5'')
     @ asc ''}</script><script type=application/ld+json>{'' @ [34] @ asc ''geo'' @ [34]
     @ asc '':{'' @ inline_coords a b @ asc ''}}</script>''"

definition geo_script :: "rat \<Rightarrow> rat \<Rightarrow> json" where
  "geo_script x y =
     JObj [(asc ''geo'', JObj [(asc ''latitude'', JNum x), (asc ''longitude'', JNum y)])]"

definition equator_page :: page where
  "equator_page =
     \<lparr>page_text = page_body (asc ''0'') (asc ''10''), ld_scripts = [Some (geo_script 0 10)]\<rparr>"

definition moscow_page :: page where
  "moscow_page =
     \<lparr>page_text = page_body (asc ''55.75'') (asc ''37.61''),
      ld_scripts = [None, Some (geo_script (223 / 4) (3761 / 100))]\<rparr>"

subsection \<open>A site for the scrapers\<close>

text \<open>
  Page 1 lists the link \<open>/rent/1\<close> twice and \<open>/rent/2\<close> once, pages 2 to 4 list nothing and
  every later page lists \<open>/rent/2\<close>. The detail page of \<open>/rent/1\<close> answers 429 on the first
  two attempts; every other request succeeds. The record of a link is the link.
\<close>

definition link_a :: pystr where "link_a = asc ''/rent/1''"

definition link_b :: pystr where "link_b = asc ''/rent/2''"

definition demo_site :: "pystr site" where
  "demo_site =
     \<lparr>get_page = (\<lambda>p. if p = 1 then PageLinks [link_a, link_a, link_b]
                      else if p \<le> 4 then PageLinks [] else PageLinks [link_b]),
      get_item = (\<lambda>p l k. if l = link_a \<and> k < 3 then ItemBlocked else ItemOk l),
      build_record = (\<lambda>l body. Some l)\<rparr>"

subsection \<open>A run of the classifier over two rows\<close>

text \<open>
  A sheet with two rows to look up. The service fails on every request for the
  coordinates of the first; for the coordinates of the second it fails twice and then
  answers with a response that carries the priority-zone code of the pink zone beside
  the zone code of the green one.
\<close>

definition two_row_sheet :: worksheet where
  "two_row_sheet =
     \<lparr>cell_value = (\<lambda>rc. PNone)
        ((2, 2) := PStr (asc ''311739319''),
         (2, 23) := PStr (coord_note (asc ''55.75'') (asc ''37.61'')),
         (3, 2) := PStr (asc ''311739320''),
         (3, 23) := PStr (coord_note (asc ''59.93'') (asc ''30.31''))),
      cell_fill = (\<lambda>rc. None), max_row = 3, max_column = 23\<rparr>"

definition pink_response :: json where
  "pink_response = zone_response [] (Some (asc ''new_build_zones'')) (Some (asc ''green_zone''))"

definition flaky_service :: http where
  "flaky_service =
     (\<lambda>u k. if u = check_url (coord_note (asc ''59.93'') (asc ''30.31'')) \<and> 3 \<le> k
            then Some pink_response else None)"

text \<open>A response without a description whose priority-zone entry is null, in a green
  zone.\<close>

definition null_priority_response :: json where
  "null_priority_response =
     JObj [(asc ''point_info'',
            JObj [(asc ''zone_info'', JObj [(asc ''text_code'', JStr (asc ''green_zone''))]),
                  (asc ''general_info'', JObj [(asc ''priority_zone_info'', JNull)])])]"

section \<open>Facts about the string primitives\<close>

lemma py_find_None_iff: "py_find sub s = None \<longleftrightarrow> \<not> sublist sub s"
  by (induction s) (auto simp: sublist_Cons_right)

lemma py_in_sublist: "py_in sub s \<longleftrightarrow> sublist sub s"
  by (simp add: py_in_def py_find_None_iff)

lemma py_split_none: "\<not> sublist sep s \<Longrightarrow> py_split sep s = [s]"
  by (simp add: py_split.simps [of sep s] py_find_None_iff [symmetric])

lemma py_find_at:
  "\<not> sublist sep (p @ butlast sep) \<Longrightarrow> py_find sep (p @ sep @ r) = Some (length p)"
proof (induction p)
  case Nil
  show ?case
  proof (cases "sep @ r")
    case Nil
    then show ?thesis by simp
  next
    case (Cons a l)
    have "prefix sep (sep @ r)" by simp
    with Cons show ?thesis by simp
  qed
next
  case (Cons c p)
  from Cons.prems have np: "\<not> prefix sep (c # p @ butlast sep)"
    and ns: "\<not> sublist sep (p @ butlast sep)"
    by (auto simp: sublist_Cons_right)
  have "\<not> prefix sep (c # p @ sep @ r)"
  proof
    assume a: "prefix sep (c # p @ sep @ r)"
    have b: "prefix (c # p @ butlast sep) (c # p @ sep @ r)"
      by (cases sep rule: rev_cases) auto
    have "length sep \<le> length (c # p @ butlast sep)" by simp
    with a b have "prefix sep (c # p @ butlast sep)"
      by (rule prefix_length_prefix)
    with np show False by simp
  qed
  with Cons.IH [OF ns] show ?case by simp
qed

lemma py_split_at:
  assumes "sep \<noteq> []" "\<not> sublist sep (p @ butlast sep)"
  shows "py_split sep (p @ sep @ r) = p # py_split sep r"
  using assms py_find_at [OF assms(2), of r]
  by (simp add: py_split.simps [of sep "p @ sep @ r"])

lemma py_split_not_Nil: "py_split sep s \<noteq> []"
  by (simp add: py_split.simps [of sep s] split: option.splits)

lemma sublist_append_strict:
  "sublist xs (ys @ zs) \<longleftrightarrow>
     sublist xs ys \<or> sublist xs zs \<or>
     (\<exists>xs1 xs2. xs = xs1 @ xs2 \<and> xs1 \<noteq> [] \<and> xs2 \<noteq> [] \<and> suffix xs1 ys \<and> prefix xs2 zs)"
  unfolding sublist_append
  by (metis append_Nil append_Nil2 prefix_imp_sublist suffix_imp_sublist)

lemma lat_marker_absent1:
  assumes "\<not> sublist (asc ''lat = '') U"
  shows "\<not> sublist (asc ''lat = '') (asc '', lng = '' @ U)"
  using assms
  by (auto simp: sublist_append_strict asc_def Cons_eq_append_conv suffix_to_prefix sublist_code)

lemma lat_marker_absent:
  assumes "\<not> sublist (asc ''lat = '') L" "\<not> sublist (asc ''lat = '') U"
  shows "\<not> sublist (asc ''lat = '') (L @ asc '', lng = '' @ U)"
  using assms lat_marker_absent1 [OF assms(2)]
  by (auto simp: sublist_append_strict [of _ L] asc_def Cons_eq_append_conv)

lemma lng_marker_absent1:
  assumes "\<not> sublist (asc ''lng = '') L"
  shows "\<not> sublist (asc ''lng = '') (L @ asc '', lng ='')"
  using assms
  by (auto simp: sublist_append_strict asc_def Cons_eq_append_conv suffix_to_prefix sublist_code)

lemma lng_marker_absent:
  assumes "\<not> sublist (asc ''lng = '') L"
  shows "\<not> sublist (asc ''lng = '') (asc ''lat = '' @ L @ asc '', lng ='')"
  using lng_marker_absent1 [OF assms]
  by (auto simp: sublist_append_strict [of _ "asc ''lat = ''"] asc_def Cons_eq_append_conv
      suffix_to_prefix sublist_code)

lemma parse_lat_note:
  assumes "44 \<notin> set L" "\<not> sublist (asc ''lat = '') L" "\<not> sublist (asc ''lat = '') U"
  shows "parse_lat (coord_note L U) = L"
proof -
  let ?R = "L @ asc '', lng = '' @ U"
  have "py_split (asc ''lat = '') (coord_note L U) = [] # py_split (asc ''lat = '') ?R"
    using py_split_at [of "asc ''lat = ''" "[]" ?R]
    by (simp add: coord_note_def asc_def sublist_code)
  also have "py_split (asc ''lat = '') ?R = [?R]"
    by (rule py_split_none) (rule lat_marker_absent [OF assms(2,3)])
  finally have l: "last (py_split (asc ''lat = '') (coord_note L U)) = ?R" by simp
  have "\<not> sublist [44::nat] (L @ butlast [44])"
    using assms(1) set_mono_sublist [of "[44]" L] by auto
  then have "py_split [44] (L @ [44] @ (asc '' lng = '' @ U)) = L # py_split [44] (asc '' lng = '' @ U)"
    by (intro py_split_at) simp_all
  moreover have "?R = L @ [44] @ (asc '' lng = '' @ U)"
    by (simp add: asc_def)
  ultimately show ?thesis
    by (simp add: parse_lat_def l)
qed

lemma parse_lng_note:
  assumes "\<not> sublist (asc ''lng = '') L" "\<not> sublist (asc ''lng = '') U"
  shows "parse_lng (coord_note L U) = U"
proof -
  let ?P = "asc ''lat = '' @ L @ asc '', ''"
  have e: "coord_note L U = ?P @ asc ''lng = '' @ U"
    by (simp add: coord_note_def asc_def)
  have b: "?P @ butlast (asc ''lng = '') = asc ''lat = '' @ L @ asc '', lng =''"
    by (simp add: asc_def)
  have n: "\<not> sublist (asc ''lng = '') (?P @ butlast (asc ''lng = ''))"
    using lng_marker_absent [OF assms(1)] b by simp
  have "asc ''lng = '' \<noteq> []"
    by (simp add: asc_def)
  then have "py_split (asc ''lng = '') (?P @ asc ''lng = '' @ U) = ?P # py_split (asc ''lng = '') U"
    using n by (rule py_split_at)
  also have "py_split (asc ''lng = '') U = [U]"
    by (rule py_split_none [OF assms(2)])
  finally show ?thesis
    by (simp add: parse_lng_def e)
qed

section \<open>Facts about values and the address normalizer\<close>

lemma nat_digits_not_Nil: "nat_digits n \<noteq> []"
  by (subst nat_digits.simps) simp

lemma py_str_not_Nil: "\<not> isinstance_str v \<Longrightarrow> py_str v \<noteq> []"
  by (cases v) (simp_all add: asc_def int_str_def nat_digits_not_Nil)

text \<open>The address made of the single segment U+0426 U+0410 U+041E (the okrug token of the
  centre of Moscow): the cleaning leaves it alone, and the token filter drops it.\<close>

lemma tsao_clean: "clean_address [1062, 1040, 1054] = [1062, 1040, 1054]"
  by (simp add: clean_address_def py_replace_def py_split_none sublist_code na_karte_def
      py_strip_def py_lstrip_def py_rstrip_def paren_match_def py_isspace_def)

lemma tsao_parts: "address_parts [1062, 1040, 1054] = [[1062, 1040, 1054]]"
  by (simp add: address_parts_def py_split_none sublist_code
      py_strip_def py_lstrip_def py_rstrip_def py_isspace_def)

lemma tsao_dropped: "is_dropped [1062, 1040, 1054]"
  by (simp add: is_dropped_def tokens_to_drop_def py_in_sublist sublist_code py_lower_def
      lower_cp_def)

lemma tsao_filtered: "filtered_parts [1062, 1040, 1054] = []"
  by (simp add: filtered_parts_def tsao_clean tsao_parts tsao_dropped)

section \<open>Facts about the Zone Classifier\<close>

lemma zone_names_distinct:
  "red_zone \<noteq> asc ''ERROR''" "occupied_status \<noteq> asc ''ERROR''" "pink_zone \<noteq> asc ''ERROR''"
  "purple_zone \<noteq> asc ''ERROR''" "green_zone \<noteq> asc ''ERROR''" "NA \<noteq> asc ''ERROR''"
  "red_zone \<noteq> asc ''NO_POINT_INFO''" "occupied_status \<noteq> asc ''NO_POINT_INFO''"
  "pink_zone \<noteq> asc ''NO_POINT_INFO''" "purple_zone \<noteq> asc ''NO_POINT_INFO''"
  "green_zone \<noteq> asc ''NO_POINT_INFO''" "NA \<noteq> asc ''NO_POINT_INFO''"
  "red_zone \<noteq> []" "occupied_status \<noteq> []" "pink_zone \<noteq> []" "purple_zone \<noteq> []"
  "green_zone \<noteq> []" "NA \<noteq> []"
  by (simp_all add: red_zone_def occupied_status_def pink_zone_def purple_zone_def
      green_zone_def NA_def asc_def)

lemma color_to_write_zone [simp]:
  "color_to_write red_zone = red_zone" "color_to_write occupied_status = occupied_status"
  "color_to_write pink_zone = pink_zone" "color_to_write purple_zone = purple_zone"
  "color_to_write green_zone = green_zone" "color_to_write NA = NA"
  "color_to_write (asc ''ERROR'') = NA"
  by (simp_all add: color_to_write_def zone_names_distinct)

lemma zone_part_range:
  "zone_part z = Inr (Some c) \<Longrightarrow> c = green_zone"
  by (cases z) (auto simp: zone_part_def bind_err_def split: option.splits if_splits)

lemma parse_response_range:
  assumes "parse_response j = Inr (Some c)"
  shows "c \<in> set [red_zone, occupied_status, pink_zone, purple_zone, green_zone]"
  using assms unfolding parse_response_def bind_err_def
  by (auto split: sum.splits if_splits dest: zone_part_range)

lemma classify_range:
  "color_to_write (classify resp)
     \<in> set [red_zone, occupied_status, pink_zone, purple_zone, green_zone, NA]"
proof (cases resp)
  case None
  then show ?thesis by (simp add: classify_def)
next
  case (Some j)
  show ?thesis
  proof (cases "json_truthy j")
    case False
    with Some show ?thesis by (simp add: classify_def)
  next
    case True
    show ?thesis
    proof (cases "parse_response j")
      case (Inl e)
      with Some True show ?thesis by (simp add: classify_def)
    next
      case (Inr oc)
      show ?thesis
      proof (cases oc)
        case None
        with Some True Inr show ?thesis by (simp add: classify_def)
      next
        case (Some c)
        with Inr have "c \<in> set [red_zone, occupied_status, pink_zone, purple_zone, green_zone]"
          by (auto dest: parse_response_range)
        with \<open>resp = Some j\<close> True Inr Some show ?thesis
          by (auto simp: classify_def)
      qed
    qed
  qed
qed

lemma asc_keys_distinct:
  "asc ''description'' \<noteq> asc ''point_info''" "asc ''zone_info'' \<noteq> asc ''general_info''"
  "asc ''point_info'' \<noteq> asc ''description''" "asc ''general_info'' \<noteq> asc ''zone_info''"
  by (simp_all add: asc_def)

lemma classify_zone_response:
  "color_to_write (classify (Some (zone_response d p z))) = spec_classification d p z"
  by (cases p; cases z)
    (auto simp: classify_def zone_response_def spec_classification_def parse_response_def
      bind_err_def zone_part_def asc_keys_distinct)

lemma fetch_attempts_all_fail:
  "(\<And>k. http u k = None) \<Longrightarrow> fetch_attempts http u t n = None"
  by (induction n arbitrary: t) simp_all

lemma set_status_value:
  "cell_value (set_status_to_table ws r color) (r, COLUMN_COLOR) = PStr color"
  by (simp add: set_status_to_table_def Let_def)

lemma process_row_lookup:
  assumes "cell_value (sheet st) (r, COLUMN_COORDINATES) = PStr c" and "c \<noteq> []"
    and "\<not> is_terminal (cell_value (sheet st) (r, 2))"
  shows "process_row http r st =
     Inr \<lparr>sheet = set_status_to_table (ws_cell r 2 (ws_cell r COLUMN_COORDINATES (sheet st))) r
              (color_to_write (classify (fetch_page http (check_url c)))),
          calls = calls st @ [check_url c]\<rparr>"
  using assms
  by (simp add: process_row_def Let_def ws_cell_def check_coordinates_def)

lemma process_row_skip:
  assumes "is_terminal (cell_value (sheet st) (r, 2))"
  shows "\<exists>st'. process_row http r st = Inr st' \<and> calls st' = calls st \<and>
           cell_value (sheet st') = cell_value (sheet st) \<and>
           cell_fill (sheet st') = cell_fill (sheet st)"
  using assms
  by (simp add: process_row_def Let_def ws_cell_def)

lemma fetch_page_first:
  assumes "http u 1 = Some j" and "json_contains nothing_found j = Inr False"
  shows "fetch_page http u = Some j"
  using assms by (simp add: fetch_page_def eval_nat_numeral)

lemma green_service_fetch:
  "fetch_page green_service u = Some (zone_response [] None (Some (asc ''green_zone'')))"
  by (rule fetch_page_first)
    (simp_all add: green_service_def zone_response_def nothing_found_def asc_def)

lemma green_service_classify:
  "color_to_write (classify (fetch_page green_service u)) = green_zone"
  by (simp add: green_service_fetch classify_zone_response spec_classification_def
      red_description_def occupied_description_def)

subsection \<open>The table on an arbitrary response\<close>

lemma json_get_Inr:
  "json_get j k d = Inr v \<Longrightarrow>
     \<exists>kvs. j = JObj kvs \<and> v = (case map_of kvs k of Some x \<Rightarrow> x | None \<Rightarrow> d)"
  by (cases j) (auto split: option.splits)

lemma json_path_get:
  assumes "json_get j k (JObj []) = Inr v"
  shows "json_path j (k # k' # ks) = json_path v (k' # ks)"
proof -
  from assms obtain kvs where j: "j = JObj kvs"
    and v: "v = (case map_of kvs k of Some x \<Rightarrow> x | None \<Rightarrow> JObj [])"
    by (auto dest: json_get_Inr)
  show ?thesis unfolding j v by (cases "map_of kvs k") simp_all
qed

lemma string_at_get:
  "json_get j k (JObj []) = Inr v \<Longrightarrow> string_at j (k # k' # ks) = string_at v (k' # ks)"
  by (simp add: string_at_def json_path_get)

lemma string_at_leaf:
  assumes "json_get j k d = Inr v" and "d \<noteq> JStr s"
  shows "v = JStr s \<longleftrightarrow> string_at j [k] = Some s"
proof -
  from assms(1) obtain kvs where j: "j = JObj kvs"
    and v: "v = (case map_of kvs k of Some x \<Rightarrow> x | None \<Rightarrow> d)"
    by (auto dest: json_get_Inr)
  show ?thesis
  proof (cases "map_of kvs k")
    case None
    with assms(2) show ?thesis unfolding j v by (simp add: string_at_def)
  next
    case (Some x)
    then show ?thesis unfolding j v by (cases x) (auto simp: string_at_def)
  qed
qed

lemma falsy_string_at:
  "\<not> json_truthy v \<Longrightarrow> string_at v (k # ks) = None"
  by (cases v) (simp_all add: string_at_def)

lemma zone_part_table:
  assumes "zone_part z = Inr r"
  shows "r = (if string_at z [asc ''text_code''] = Some (asc ''green_zone'')
              then Some green_zone else None)"
proof -
  from assms obtain t where t: "json_get z (asc ''text_code'') JNull = Inr t"
    by (cases "json_get z (asc ''text_code'') JNull") (simp_all add: zone_part_def bind_err_def)
  have "t = JStr (asc ''green_zone'') \<longleftrightarrow> string_at z [asc ''text_code''] = Some (asc ''green_zone'')"
    by (rule string_at_leaf [OF t]) simp
  with assms t show ?thesis by (auto simp: zone_part_def bind_err_def)
qed

lemma bind_err_InrE:
  assumes "bind_err m f = Inr r"
  obtains x where "m = Inr x" "f x = Inr r"
  using assms by (cases m) (simp_all add: bind_err_def)

lemma description_names:
  "red_description \<noteq> []" "occupied_description \<noteq> []" "red_description \<noteq> occupied_description"
  by (simp_all add: red_description_def occupied_description_def occupied_status_def)

lemma spec_classification_simps:
  "spec_classification red_description p z = red_zone"
  "spec_classification occupied_description p z = occupied_status"
  "d \<noteq> red_description \<Longrightarrow> d \<noteq> occupied_description \<Longrightarrow>
     spec_classification d p z =
       (if p = Some (asc ''new_build_zones'') then pink_zone
        else if p = Some (asc ''load_predict'') then purple_zone
        else if z = Some (asc ''green_zone'') then green_zone else NA)"
  using description_names(3) by (simp_all add: spec_classification_def)

lemma parse_response_table:
  assumes "parse_response j = Inr r"
  shows "(case r of Some c \<Rightarrow> c | None \<Rightarrow> NA) = response_classification j"
proof -
  let ?D = "case string_at j [asc ''description''] of Some d \<Rightarrow> d | None \<Rightarrow> []"
  let ?P = "string_at j [asc ''point_info'', asc ''general_info'', asc ''priority_zone_info'',
                     asc ''text_code'']"
  let ?Z = "string_at j [asc ''point_info'', asc ''zone_info'', asc ''text_code'']"
  have "bind_err (json_get j (asc ''description'') (JStr [])) (\<lambda>description.
       if description = JStr red_description then Inr (Some red_zone)
       else if description = JStr occupied_description then Inr (Some occupied_status)
       else
         bind_err (json_get j (asc ''point_info'') (JObj [])) (\<lambda>point_info.
         bind_err (json_get point_info (asc ''zone_info'') (JObj [])) (\<lambda>zone_info.
         bind_err (json_get point_info (asc ''general_info'') (JObj [])) (\<lambda>general_info.
         bind_err (json_get general_info (asc ''priority_zone_info'') (JObj []))
           (\<lambda>priority_zone_info.
             if json_truthy priority_zone_info then
               bind_err (json_get priority_zone_info (asc ''text_code'') JNull) (\<lambda>text_code.
                 if text_code = JStr (asc ''new_build_zones'') then Inr (Some pink_zone)
                 else if text_code = JStr (asc ''load_predict'') then Inr (Some purple_zone)
                 else zone_part zone_info)
             else zone_part zone_info))))) = Inr r"
    using assms unfolding parse_response_def .
  then obtain d where d: "json_get j (asc ''description'') (JStr []) = Inr d"
    and 1: "(if d = JStr red_description then Inr (Some red_zone)
       else if d = JStr occupied_description then Inr (Some occupied_status)
       else
         bind_err (json_get j (asc ''point_info'') (JObj [])) (\<lambda>point_info.
         bind_err (json_get point_info (asc ''zone_info'') (JObj [])) (\<lambda>zone_info.
         bind_err (json_get point_info (asc ''general_info'') (JObj [])) (\<lambda>general_info.
         bind_err (json_get general_info (asc ''priority_zone_info'') (JObj []))
           (\<lambda>priority_zone_info.
             if json_truthy priority_zone_info then
               bind_err (json_get priority_zone_info (asc ''text_code'') JNull) (\<lambda>text_code.
                 if text_code = JStr (asc ''new_build_zones'') then Inr (Some pink_zone)
                 else if text_code = JStr (asc ''load_predict'') then Inr (Some purple_zone)
                 else zone_part zone_info)
             else zone_part zone_info))))) = Inr r"
    by (rule bind_err_InrE)
  have dr: "d = JStr s \<longleftrightarrow> ?D = s" if "s \<noteq> []" for s
  proof -
    have "d = JStr s \<longleftrightarrow> string_at j [asc ''description''] = Some s"
      using that by (intro string_at_leaf [OF d]) simp
    then show ?thesis using that by (auto split: option.splits)
  qed
  show ?thesis
  proof (cases "d = JStr red_description")
    case True
    with 1 have r: "r = Some red_zone" by simp
    from True dr [of red_description] have "?D = red_description"
      by (simp add: description_names)
    then show ?thesis
      unfolding r response_classification_def by (simp add: spec_classification_simps)
  next
    case nr: False
    show ?thesis
    proof (cases "d = JStr occupied_description")
      case True
      with 1 nr have r: "r = Some occupied_status" by simp
      from True dr [of occupied_description] have "?D = occupied_description"
        by (simp add: description_names)
      then show ?thesis
        unfolding r response_classification_def by (simp add: spec_classification_simps)
    next
      case no: False
      from nr dr [of red_description] have D1: "?D \<noteq> red_description"
        by (simp add: description_names)
      from no dr [of occupied_description] have D2: "?D \<noteq> occupied_description"
        by (simp add: description_names)
      have rc: "response_classification j =
          (if ?P = Some (asc ''new_build_zones'') then pink_zone
           else if ?P = Some (asc ''load_predict'') then purple_zone
           else if ?Z = Some (asc ''green_zone'') then green_zone else NA)"
        unfolding response_classification_def by (rule spec_classification_simps(3) [OF D1 D2])
      from 1 nr no have "bind_err (json_get j (asc ''point_info'') (JObj [])) (\<lambda>point_info.
         bind_err (json_get point_info (asc ''zone_info'') (JObj [])) (\<lambda>zone_info.
         bind_err (json_get point_info (asc ''general_info'') (JObj [])) (\<lambda>general_info.
         bind_err (json_get general_info (asc ''priority_zone_info'') (JObj []))
           (\<lambda>priority_zone_info.
             if json_truthy priority_zone_info then
               bind_err (json_get priority_zone_info (asc ''text_code'') JNull) (\<lambda>text_code.
                 if text_code = JStr (asc ''new_build_zones'') then Inr (Some pink_zone)
                 else if text_code = JStr (asc ''load_predict'') then Inr (Some purple_zone)
                 else zone_part zone_info)
             else zone_part zone_info)))) = Inr r"
        by (simp only: if_False)
      then obtain point_info where pi: "json_get j (asc ''point_info'') (JObj []) = Inr point_info"
        and a: "bind_err (json_get point_info (asc ''zone_info'') (JObj [])) (\<lambda>zone_info.
         bind_err (json_get point_info (asc ''general_info'') (JObj [])) (\<lambda>general_info.
         bind_err (json_get general_info (asc ''priority_zone_info'') (JObj []))
           (\<lambda>priority_zone_info.
             if json_truthy priority_zone_info then
               bind_err (json_get priority_zone_info (asc ''text_code'') JNull) (\<lambda>text_code.
                 if text_code = JStr (asc ''new_build_zones'') then Inr (Some pink_zone)
                 else if text_code = JStr (asc ''load_predict'') then Inr (Some purple_zone)
                 else zone_part zone_info)
             else zone_part zone_info))) = Inr r"
        by (rule bind_err_InrE)
      from a obtain zone_info where zi: "json_get point_info (asc ''zone_info'') (JObj []) = Inr zone_info"
        and b: "bind_err (json_get point_info (asc ''general_info'') (JObj [])) (\<lambda>general_info.
         bind_err (json_get general_info (asc ''priority_zone_info'') (JObj []))
           (\<lambda>priority_zone_info.
             if json_truthy priority_zone_info then
               bind_err (json_get priority_zone_info (asc ''text_code'') JNull) (\<lambda>text_code.
                 if text_code = JStr (asc ''new_build_zones'') then Inr (Some pink_zone)
                 else if text_code = JStr (asc ''load_predict'') then Inr (Some purple_zone)
                 else zone_part zone_info)
             else zone_part zone_info)) = Inr r"
        by (rule bind_err_InrE)
      from b obtain general_info
        where gi: "json_get point_info (asc ''general_info'') (JObj []) = Inr general_info"
        and c: "bind_err (json_get general_info (asc ''priority_zone_info'') (JObj []))
           (\<lambda>priority_zone_info.
             if json_truthy priority_zone_info then
               bind_err (json_get priority_zone_info (asc ''text_code'') JNull) (\<lambda>text_code.
                 if text_code = JStr (asc ''new_build_zones'') then Inr (Some pink_zone)
                 else if text_code = JStr (asc ''load_predict'') then Inr (Some purple_zone)
                 else zone_part zone_info)
             else zone_part zone_info) = Inr r"
        by (rule bind_err_InrE)
      from c obtain pzi
        where pz: "json_get general_info (asc ''priority_zone_info'') (JObj []) = Inr pzi"
          and 2: "(if json_truthy pzi then
               bind_err (json_get pzi (asc ''text_code'') JNull) (\<lambda>text_code.
                 if text_code = JStr (asc ''new_build_zones'') then Inr (Some pink_zone)
                 else if text_code = JStr (asc ''load_predict'') then Inr (Some purple_zone)
                 else zone_part zone_info)
             else zone_part zone_info) = Inr r"
        by (rule bind_err_InrE)
      have P: "?P = string_at pzi [asc ''text_code'']"
        by (simp only: string_at_get [OF pi] string_at_get [OF gi] string_at_get [OF pz])
      have Z: "?Z = string_at zone_info [asc ''text_code'']"
        by (simp only: string_at_get [OF pi] string_at_get [OF zi])
      have zone: "(case r of Some c \<Rightarrow> c | None \<Rightarrow> NA) =
          (if ?Z = Some (asc ''green_zone'') then green_zone else NA)"
        if "zone_part zone_info = Inr r"
        unfolding Z zone_part_table [OF that] by simp
      show ?thesis
      proof (cases "json_truthy pzi")
        case False
        then have p: "?P = None" unfolding P by (rule falsy_string_at)
        from 2 False have "zone_part zone_info = Inr r" by simp
        then show ?thesis
          unfolding rc p by (simp add: zone)
      next
        case True
        with 2 have "bind_err (json_get pzi (asc ''text_code'') JNull) (\<lambda>text_code.
                 if text_code = JStr (asc ''new_build_zones'') then Inr (Some pink_zone)
                 else if text_code = JStr (asc ''load_predict'') then Inr (Some purple_zone)
                 else zone_part zone_info) = Inr r"
          by (simp only: if_True)
        then obtain t where t: "json_get pzi (asc ''text_code'') JNull = Inr t"
          and 3: "(if t = JStr (asc ''new_build_zones'') then Inr (Some pink_zone)
                 else if t = JStr (asc ''load_predict'') then Inr (Some purple_zone)
                 else zone_part zone_info) = Inr r"
          by (rule bind_err_InrE)
        have ts: "t = JStr s \<longleftrightarrow> ?P = Some s" for s
          unfolding P by (rule string_at_leaf [OF t]) simp
        show ?thesis
        proof (cases "t = JStr (asc ''new_build_zones'')")
          case True
          with 3 have r: "r = Some pink_zone" by simp
          from True have "?P = Some (asc ''new_build_zones'')" by (simp only: ts)
          then show ?thesis unfolding rc r by simp
        next
          case nb: False
          then have p1: "?P \<noteq> Some (asc ''new_build_zones'')" by (simp only: ts) simp
          show ?thesis
          proof (cases "t = JStr (asc ''load_predict'')")
            case True
            with 3 nb have r: "r = Some purple_zone" by simp
            from True have "?P = Some (asc ''load_predict'')" by (simp only: ts)
            then show ?thesis unfolding rc r using p1 by simp
          next
            case False
            then have p2: "?P \<noteq> Some (asc ''load_predict'')" by (simp only: ts) simp
            from 3 nb False have "zone_part zone_info = Inr r" by simp
            then show ?thesis unfolding rc using p1 p2 by (simp add: zone)
          qed
        qed
      qed
    qed
  qed
qed

lemma response_classification_empty: "response_classification (JObj []) = NA"
proof -
  have s: "string_at (JObj []) (k # ks) = None" for k ks
    by (simp add: string_at_def)
  show ?thesis
    unfolding response_classification_def s option.case
    by (simp add: spec_classification_simps(3) [OF description_names(1) [THEN not_sym]
          description_names(2) [THEN not_sym]])
qed

lemma classify_table:
  assumes "\<forall>e. parse_response j \<noteq> Inl e"
  shows "color_to_write (classify (Some j)) = response_classification j"
proof -
  from assms obtain r where r: "parse_response j = Inr r"
    by (cases "parse_response j") simp_all
  note t = parse_response_table [OF r]
  show ?thesis
  proof (cases "json_truthy j")
    case True
    show ?thesis
    proof (cases r)
      case None
      with True r t show ?thesis by (simp add: classify_def)
    next
      case (Some c)
      with r have "parse_response j = Inr (Some c)" by simp
      then have "c \<in> set [red_zone, occupied_status, pink_zone, purple_zone, green_zone]"
        by (rule parse_response_range)
      then have "color_to_write c = c" by auto
      with True r t Some show ?thesis by (simp add: classify_def)
    qed
  next
    case False
    from r obtain kvs where "j = JObj kvs"
      by (cases j) (simp_all add: parse_response_def bind_err_def)
    with False have j: "j = JObj []" by simp
    show ?thesis unfolding j response_classification_empty by (simp add: classify_def)
  qed
qed

subsection \<open>The retry loop\<close>

lemma fetch_attempts_skip:
  assumes "attempt_fails http u t"
  shows "fetch_attempts http u t (Suc n) = fetch_attempts http u (Suc t) n"
  using assms by (auto simp: attempt_fails_def split: option.splits sum.splits)

lemma fetch_attempts_answer:
  assumes "http u t = Some j" "json_contains nothing_found j = Inr b"
  shows "fetch_attempts http u t (Suc n) = (if b then None else Some j)"
  using assms by simp

lemma fetch_attempts_first:
  assumes "\<forall>i. t \<le> i \<and> i < t + m \<longrightarrow> attempt_fails http u i"
    and "http u (t + m) = Some j" "json_contains nothing_found j = Inr b"
  shows "fetch_attempts http u t (m + Suc n) = (if b then None else Some j)"
  using assms
proof (induction m arbitrary: t)
  case 0
  then show ?case by (simp del: fetch_attempts.simps add: fetch_attempts_answer)
next
  case (Suc m)
  from Suc.prems(1) have f: "attempt_fails http u t" by simp
  have "fetch_attempts http u (Suc t) (m + Suc n) = (if b then None else Some j)"
    using Suc.prems by (intro Suc.IH) simp_all
  with f show ?case by (simp del: fetch_attempts.simps add: fetch_attempts_skip)
qed

lemma fetch_attempts_none:
  assumes "\<forall>i. t \<le> i \<and> i < t + n \<longrightarrow> attempt_fails http u i"
  shows "fetch_attempts http u t n = None"
  using assms
proof (induction n arbitrary: t)
  case 0
  then show ?case by simp
next
  case (Suc n)
  from Suc.prems have f: "attempt_fails http u t" by simp
  have "fetch_attempts http u (Suc t) n = None"
    using Suc.prems by (intro Suc.IH) simp
  with f show ?case by (simp del: fetch_attempts.simps add: fetch_attempts_skip)
qed

lemma fetch_page_none:
  assumes "\<forall>k. 1 \<le> k \<and> k \<le> 5 \<longrightarrow> attempt_fails http u k"
  shows "fetch_page http u = None"
  unfolding fetch_page_def using assms by (intro fetch_attempts_none) simp

lemma fetch_page_answer:
  assumes "1 \<le> k" "k \<le> 5" "\<forall>i. 1 \<le> i \<and> i < k \<longrightarrow> attempt_fails http u i"
    and "http u k = Some j" "json_contains nothing_found j = Inr b"
  shows "fetch_page http u = (if b then None else Some j)"
proof -
  from assms(1,2) obtain m n where k: "k = 1 + m" and n: "5 = m + Suc n"
    by (intro that [of "k - 1" "4 - (k - 1)"]) simp_all
  have "fetch_attempts http u 1 (m + Suc n) = (if b then None else Some j)"
    using assms(3,4,5) unfolding k by (intro fetch_attempts_first) simp_all
  then show ?thesis by (simp add: fetch_page_def n)
qed

subsection \<open>The loop over the rows\<close>

lemma fill_row_cell_value: "cell_value (fill_row r f cs ws) = cell_value ws"
  by (induction cs arbitrary: ws) (simp_all add: ws_cell_def)

lemma set_status_cells:
  "cell_value (set_status_to_table ws r color) = (cell_value ws)((r, COLUMN_COLOR) := PStr color)"
  by (simp add: set_status_to_table_def Let_def ws_cell_def fill_row_cell_value
      split: option.splits)

lemma process_row_triggers:
  assumes "triggers_lookup (sheet st) r"
  shows "\<exists>st1. process_row http r st = Inr st1 \<and>
     calls st1 = calls st @ [check_url (row_coordinates (sheet st) r)] \<and>
     cell_value (sheet st1) =
       (cell_value (sheet st))
         ((r, COLUMN_COLOR) := PStr (written_classification http (sheet st) r))"
proof -
  from assms obtain c where c: "cell_value (sheet st) (r, COLUMN_COORDINATES) = PStr c" "c \<noteq> []"
    and t: "\<not> is_terminal (cell_value (sheet st) (r, 2))"
    by (auto simp: triggers_lookup_def split: pyval.splits)
  have rc: "row_coordinates (sheet st) r = c" by (simp add: row_coordinates_def c)
  show ?thesis
    unfolding process_row_lookup [OF c t] written_classification_def rc
    by (simp add: set_status_cells ws_cell_def)
qed

lemma process_row_passes:
  assumes "text_or_blank (sheet st) r" "\<not> triggers_lookup (sheet st) r"
  shows "\<exists>st1. process_row http r st = Inr st1 \<and> calls st1 = calls st \<and>
     cell_value (sheet st1) = cell_value (sheet st)"
proof (cases "truthy (cell_value (sheet st) (r, COLUMN_COORDINATES))")
  case False
  then show ?thesis by (simp add: process_row_def Let_def ws_cell_def)
next
  case True
  with assms(1) obtain c where c: "cell_value (sheet st) (r, COLUMN_COORDINATES) = PStr c"
    by (auto simp: text_or_blank_def split: pyval.splits)
  with True have "c \<noteq> []" by simp
  with assms(2) c have "is_terminal (cell_value (sheet st) (r, 2))"
    by (simp add: triggers_lookup_def)
  then show ?thesis using process_row_skip [of st r http] by blast
qed

lemma color_column_frame:
  assumes "cell_value ws' = (cell_value ws)((r, COLUMN_COLOR) := v)"
  shows "triggers_lookup ws' = triggers_lookup ws" "text_or_blank ws' = text_or_blank ws"
    "row_coordinates ws' = row_coordinates ws"
    "written_classification http ws' = written_classification http ws"
  by (simp_all add: fun_eq_iff triggers_lookup_def text_or_blank_def row_coordinates_def
      written_classification_def assms COLUMN_COLOR_def COLUMN_COORDINATES_def)

lemma process_row_step:
  assumes "text_or_blank (sheet st) r"
  shows "\<exists>st1. process_row http r st = Inr st1 \<and>
     calls st1 = calls st @
       (if triggers_lookup (sheet st) r then [check_url (row_coordinates (sheet st) r)] else []) \<and>
     cell_value (sheet st1) =
       (cell_value (sheet st))
         ((r, COLUMN_COLOR) :=
            (if triggers_lookup (sheet st) r
             then PStr (written_classification http (sheet st) r)
             else cell_value (sheet st) (r, COLUMN_COLOR)))"
proof (cases "triggers_lookup (sheet st) r")
  case True
  with process_row_triggers [OF True, of http] show ?thesis by simp
next
  case False
  with process_row_passes [OF assms False, of http] show ?thesis by auto
qed

lemma main_loop_run:
  assumes "\<forall>r \<in> set rows. text_or_blank (sheet st) r"
  shows "\<exists>st'. main_loop http rows st = Inr st' \<and>
     calls st' = calls st @
       map (\<lambda>r. check_url (row_coordinates (sheet st) r))
         (filter (triggers_lookup (sheet st)) rows) \<and>
     (\<forall>r c. cell_value (sheet st') (r, c) =
        (if c = COLUMN_COLOR \<and> r \<in> set rows \<and> triggers_lookup (sheet st) r
         then PStr (written_classification http (sheet st) r)
         else cell_value (sheet st) (r, c)))"
  using assms
proof (induction rows arbitrary: st)
  case Nil
  then show ?case by simp
next
  case (Cons r rows)
  from Cons.prems have "text_or_blank (sheet st) r" by simp
  from process_row_step [OF this, of http] obtain st1
    where p: "process_row http r st = Inr st1"
      and c1: "calls st1 = calls st @
        (if triggers_lookup (sheet st) r then [check_url (row_coordinates (sheet st) r)] else [])"
      and v1: "cell_value (sheet st1) =
        (cell_value (sheet st))
          ((r, COLUMN_COLOR) :=
            (if triggers_lookup (sheet st) r
             then PStr (written_classification http (sheet st) r)
             else cell_value (sheet st) (r, COLUMN_COLOR)))"
    by blast
  note fr = color_column_frame [OF v1]
  from Cons.prems have "\<forall>r' \<in> set rows. text_or_blank (sheet st1) r'"
    by (simp add: fr)
  from Cons.IH [OF this] obtain st'
    where m: "main_loop http rows st1 = Inr st'"
      and c2: "calls st' = calls st1 @
        map (\<lambda>r. check_url (row_coordinates (sheet st) r))
          (filter (triggers_lookup (sheet st)) rows)"
      and v2: "\<forall>r' c. cell_value (sheet st') (r', c) =
        (if c = COLUMN_COLOR \<and> r' \<in> set rows \<and> triggers_lookup (sheet st) r'
         then PStr (written_classification http (sheet st) r')
         else cell_value (sheet st1) (r', c))"
    unfolding fr by blast
  have "main_loop http (r # rows) st = Inr st'" using p m by simp
  moreover have "calls st' = calls st @
       map (\<lambda>r. check_url (row_coordinates (sheet st) r))
         (filter (triggers_lookup (sheet st)) (r # rows))"
    unfolding c2 c1 by simp
  moreover have "cell_value (sheet st') (r', c) =
        (if c = COLUMN_COLOR \<and> r' \<in> set (r # rows) \<and> triggers_lookup (sheet st) r'
         then PStr (written_classification http (sheet st) r')
         else cell_value (sheet st) (r', c))" for r' c
    using v2 [rule_format, of r' c] unfolding v1 by auto
  ultimately show ?case by blast
qed

subsection \<open>The example run\<close>

lemma check_url_note:
  assumes "44 \<notin> set L" "\<not> sublist (asc ''lat = '') L" "\<not> sublist (asc ''lat = '') U"
    "\<not> sublist (asc ''lng = '') L" "\<not> sublist (asc ''lng = '') U"
  shows "check_url (coord_note L U) =
     asc ''https://pvz-map-backend.wildberries.ru/api/v1/map/check-point?point.longitude=''
     @ U @ asc ''&point.latitude='' @ L @ asc ''&area='' @ AREA"
  by (simp add: check_url_def parse_lat_note [OF assms(1,2,3)] parse_lng_note [OF assms(4,5)])

lemma example_urls:
  "check_url (coord_note (asc ''55.75'') (asc ''37.61'')) =
     asc ''https://pvz-map-backend.wildberries.ru/api/v1/map/check-point?point.longitude=''
     @ asc ''37.61'' @ asc ''&point.latitude='' @ asc ''55.75'' @ asc ''&area='' @ AREA"
  "check_url (coord_note (asc ''59.93'') (asc ''30.31'')) =
     asc ''https://pvz-map-backend.wildberries.ru/api/v1/map/check-point?point.longitude=''
     @ asc ''30.31'' @ asc ''&point.latitude='' @ asc ''59.93'' @ asc ''&area='' @ AREA"
  by (rule check_url_note; simp add: asc_def sublist_code)+

lemma example_urls_differ:
  "check_url (coord_note (asc ''55.75'') (asc ''37.61'')) \<noteq>
   check_url (coord_note (asc ''59.93'') (asc ''30.31''))"
  unfolding example_urls by (simp add: asc_def)

lemma pink_response_answer:
  "json_contains nothing_found pink_response = Inr False"
  "color_to_write (classify (Some pink_response)) = pink_zone"
proof -
  show "json_contains nothing_found pink_response = Inr False"
    by (simp add: pink_response_def zone_response_def nothing_found_def asc_def)
  show "color_to_write (classify (Some pink_response)) = pink_zone"
    unfolding pink_response_def classify_zone_response
    by (simp add: spec_classification_simps(3) [OF description_names(1) [THEN not_sym]
          description_names(2) [THEN not_sym]])
qed

lemma flaky_service_attempts:
  "attempt_fails flaky_service (check_url (coord_note (asc ''55.75'') (asc ''37.61''))) k"
  "k < 3 \<Longrightarrow> attempt_fails flaky_service u k"
  "flaky_service (check_url (coord_note (asc ''59.93'') (asc ''30.31''))) 3 = Some pink_response"
  using example_urls_differ by (simp_all add: attempt_fails_def flaky_service_def)

lemma null_priority_parse:
  "parse_response null_priority_response = Inr (Some green_zone)"
  "response_classification null_priority_response = green_zone"
proof -
  show "parse_response null_priority_response = Inr (Some green_zone)"
    by (simp add: parse_response_def bind_err_def zone_part_def null_priority_response_def
        asc_def description_names(1,2) [THEN not_sym])
  have "string_at null_priority_response [asc ''description''] = None"
    "string_at null_priority_response
       [asc ''point_info'', asc ''general_info'', asc ''priority_zone_info'', asc ''text_code'']
     = None"
    "string_at null_priority_response [asc ''point_info'', asc ''zone_info'', asc ''text_code'']
     = Some (asc ''green_zone'')"
    by (simp_all add: string_at_def null_priority_response_def asc_def)
  then show "response_classification null_priority_response = green_zone"
    unfolding response_classification_def
    by (simp add: spec_classification_simps(3) [OF description_names(1) [THEN not_sym]
          description_names(2) [THEN not_sym]])
qed

lemma two_row_sheet_rows:
  "text_or_blank two_row_sheet 2" "text_or_blank two_row_sheet 3"
  "triggers_lookup two_row_sheet 2" "triggers_lookup two_row_sheet 3"
  "row_coordinates two_row_sheet 2 = coord_note (asc ''55.75'') (asc ''37.61'')"
  "row_coordinates two_row_sheet 3 = coord_note (asc ''59.93'') (asc ''30.31'')"
  by (simp_all add: text_or_blank_def triggers_lookup_def row_coordinates_def two_row_sheet_def
      COLUMN_COORDINATES_def is_terminal_def coord_note_def purple_zone_def pink_zone_def asc_def)

section \<open>Facts about the deduplication loop\<close>

lemma dedup_loop_keys:
  "dedup_key ` set (dedup_loop seen rs) = dedup_key ` set rs - seen"
  by (induction rs arbitrary: seen) auto

lemma dedup_loop_distinct: "distinct (map dedup_key (dedup_loop seen rs))"
proof (induction rs arbitrary: seen)
  case Nil
  then show ?case by simp
next
  case (Cons a rs)
  have "dedup_key a \<notin> dedup_key ` set (dedup_loop (insert (dedup_key a) seen) rs)"
    by (simp add: dedup_loop_keys)
  with Cons show ?case by simp
qed

lemma dedup_loop_subseq: "subseq (dedup_loop seen rs) rs"
  by (induction rs arbitrary: seen) auto

lemma dedup_loop_first:
  "r \<in> set (dedup_loop seen rs) \<Longrightarrow> find (\<lambda>x. dedup_key x = dedup_key r) rs = Some r"
proof (induction rs arbitrary: seen)
  case Nil
  then show ?case by simp
next
  case (Cons a rs)
  show ?case
  proof (cases "dedup_key a \<in> seen")
    case True
    with Cons.prems have m: "r \<in> set (dedup_loop seen rs)" by simp
    then have "dedup_key r \<in> dedup_key ` set (dedup_loop seen rs)" by (rule imageI)
    then have "dedup_key r \<notin> seen" by (simp add: dedup_loop_keys)
    with True have "dedup_key a \<noteq> dedup_key r" by auto
    with Cons.IH [OF m] show ?thesis by simp
  next
    case False
    show ?thesis
    proof (cases "r = a")
      case True
      then show ?thesis by simp
    next
      case ne: False
      with False Cons.prems have m: "r \<in> set (dedup_loop (insert (dedup_key a) seen) rs)"
        by simp
      then have "dedup_key r \<in> dedup_key ` set (dedup_loop (insert (dedup_key a) seen) rs)"
        by (rule imageI)
      then have "dedup_key a \<noteq> dedup_key r" by (auto simp: dedup_loop_keys)
      with Cons.IH [OF m] show ?thesis by simp
    qed
  qed
qed

section \<open>Facts about the URL Normalizer\<close>

lemma takeWhile_all_then:
  "list_all P xs \<Longrightarrow> ys = [] \<or> \<not> P (hd ys) \<Longrightarrow> takeWhile P (xs @ ys) = xs"
  by (cases ys; induction xs) auto

lemma dropWhile_all_then:
  "list_all P xs \<Longrightarrow> ys = [] \<or> \<not> P (hd ys) \<Longrightarrow> dropWhile P (xs @ ys) = ys"
  by (cases ys; induction xs) auto

lemma py_rstrip_keep:
  assumes "t \<noteq> []" "\<not> P (hd t)"
  shows "py_rstrip P (a @ t) = a @ py_rstrip P t"
proof -
  have "hd t \<in> set (rev t)" using assms(1) by simp
  with assms(2) have "dropWhile P (rev t @ rev a) = dropWhile P (rev t) @ rev a"
    by (intro dropWhile_append1)
  then show ?thesis by (simp add: py_rstrip_def)
qed

lemma py_rstrip_Cons:
  assumes "\<not> P x"
  shows "py_rstrip P (x # xs) = x # py_rstrip P xs"
proof -
  have "dropWhile P (rev xs @ [x]) = dropWhile P (rev xs) @ [x]"
    using assms by (simp add: dropWhile_append)
  then show ?thesis by (simp add: py_rstrip_def)
qed

lemma py_rstrip_none:
  "s = [] \<or> \<not> P (last s) \<Longrightarrow> py_rstrip P s = s"
  by (cases s rule: rev_cases) (auto simp: py_rstrip_def)

lemma py_rstrip_idem: "py_rstrip P (py_rstrip P s) = py_rstrip P s"
proof -
  have "dropWhile P (dropWhile P xs) = dropWhile P xs" for xs :: "'a list"
    by (induction xs) auto
  then show ?thesis by (simp add: py_rstrip_def)
qed

lemma py_rstrip_prefix: "prefix (py_rstrip P s) s"
proof -
  have "suffix (dropWhile P (rev s)) (rev s)" by (rule suffix_dropWhile)
  then show ?thesis by (simp add: py_rstrip_def suffix_to_prefix)
qed

lemma lower_cp_idem: "lower_cp (lower_cp c) = lower_cp c"
  by (simp add: lower_cp_def)

lemma py_lower_idem: "py_lower (py_lower s) = py_lower s"
  by (simp add: py_lower_def lower_cp_idem)

lemma py_lstrip_none: "s = [] \<or> \<not> P (hd s) \<Longrightarrow> py_lstrip P s = s"
  by (cases s) (auto simp: py_lstrip_def)

lemma url_tail_rstrip:
  assumes "url_tail t"
  shows "url_tail (py_rstrip py_isspace t)"
proof (cases t)
  case Nil
  then show ?thesis by (simp add: py_rstrip_def url_tail_def)
next
  case (Cons x xs)
  with assms have "\<not> py_isspace x" by (auto simp: url_tail_def py_isspace_def)
  then show ?thesis using Cons assms by (simp add: py_rstrip_Cons url_tail_def)
qed

lemma url_tail_filter:
  assumes "url_tail t"
  shows "url_tail (filter (\<lambda>c. c \<noteq> 9 \<and> c \<noteq> 13 \<and> c \<noteq> 10) t)"
  using assms by (cases t) (auto simp: url_tail_def)

lemma scheme_char_props:
  "scheme_char c \<Longrightarrow> c \<noteq> 58 \<and> 32 < c \<and> \<not> py_isspace c \<and> c \<noteq> 9 \<and> c \<noteq> 13 \<and> c \<noteq> 10"
  by (auto simp: scheme_char_def ascii_alpha_def py_isspace_def)

lemma host_char_props:
  "host_char c \<Longrightarrow> \<not> netloc_end c \<and> c \<noteq> 91 \<and> c \<noteq> 93 \<and> c < 128 \<and> 32 < c \<and>
     \<not> py_isspace c \<and> c \<noteq> 9 \<and> c \<noteq> 13 \<and> c \<noteq> 10"
  by (auto simp: host_char_def netloc_end_def py_isspace_def)

lemma path_char_props:
  "path_char c \<Longrightarrow> c \<noteq> 63 \<and> c \<noteq> 35 \<and> c \<noteq> 59 \<and> \<not> py_isspace c \<and> c \<noteq> 9 \<and> c \<noteq> 13 \<and> c \<noteq> 10"
  by (auto simp: path_char_def py_isspace_def)

text \<open>The body of a plain URL has no white space; stripping only touches the tail.\<close>

lemma plain_strip:
  assumes sch: "sch \<noteq> []" "list_all scheme_char sch"
    and host: "list_all host_char host" and path: "plain_path path" and tail: "url_tail tail"
  shows "\<exists>t. url_tail t \<and>
     py_strip py_isspace (sch @ asc ''://'' @ host @ path @ tail)
       = sch @ asc ''://'' @ host @ path @ t"
proof -
  let ?A = "sch @ asc ''://'' @ host @ path"
  obtain c cs where s: "sch = c # cs" using sch(1) by (cases sch) auto
  with sch(2) have "\<not> py_isspace c" by (auto dest: scheme_char_props)
  then have l: "py_lstrip py_isspace (?A @ tail) = ?A @ tail"
    using s by (simp add: py_lstrip_def)
  have la: "\<not> py_isspace (last ?A)" and ne: "?A \<noteq> []"
  proof -
    show "?A \<noteq> []" using sch(1) by simp
    show "\<not> py_isspace (last ?A)"
    proof (cases "path = []")
      case False
      then have "last ?A = last path" by simp
      moreover have "last path \<in> set path" using False by simp
      ultimately show ?thesis
        using path by (auto simp: plain_path_def list_all_iff dest: path_char_props)
    next
      case True
      show ?thesis
      proof (cases "host = []")
        case False
        then have "last ?A = last host" using True by simp
        moreover have "last host \<in> set host" using False by simp
        ultimately show ?thesis
          using host by (auto simp: list_all_iff dest: host_char_props)
      next
        case h: True
        with True show ?thesis by (simp add: asc_def py_isspace_def)
      qed
    qed
  qed
  show ?thesis
  proof (cases "tail = []")
    case True
    have "py_rstrip py_isspace ?A = ?A"
      using la by (intro py_rstrip_none) simp
    with True l show ?thesis
      by (intro exI [of _ "[]"]) (simp add: py_strip_def url_tail_def)
  next
    case False
    with tail have "\<not> py_isspace (hd tail)"
      by (auto simp: url_tail_def py_isspace_def)
    with False have "py_rstrip py_isspace (?A @ tail) = ?A @ py_rstrip py_isspace tail"
      by (rule py_rstrip_keep)
    with l url_tail_rstrip [OF tail] show ?thesis
      by (intro exI [of _ "py_rstrip py_isspace tail"]) (simp add: py_strip_def)
  qed
qed

lemma split_scheme_plain:
  assumes sch: "sch \<noteq> []" "ascii_alpha (hd sch)" "list_all scheme_char sch"
  shows "split_scheme (sch @ asc '':'' @ r) = (py_lower sch, r)"
proof -
  obtain c cs where s: "sch = c # cs" using sch(1) by (cases sch) auto
  have "\<not> sublist [58::nat] (sch @ butlast [58])"
  proof
    assume "sublist [58::nat] (sch @ butlast [58])"
    then have "58 \<in> set sch" using set_mono_sublist [of "[58]" sch] by simp
    with sch(3) show False by (auto simp: list_all_iff dest: scheme_char_props)
  qed
  then have f: "py_find [58] (sch @ [58] @ r) = Some (length sch)"
    by (rule py_find_at)
  have a: "sch @ asc '':'' @ r = sch @ [58] @ r" by (simp add: asc_def)
  show ?thesis
    unfolding a split_scheme_def f
    using s sch by simp
qed

lemma takeWhile_id: "list_all P xs \<Longrightarrow> takeWhile P xs = xs"
  by (simp add: takeWhile_eq_all_conv list_all_iff)

lemma plain_path_split:
  assumes "plain_path path" "url_tail t"
  shows "takeWhile (\<lambda>c. c \<noteq> 63) (takeWhile (\<lambda>c. c \<noteq> 35) (path @ t)) = path"
proof -
  from assms(1) have p35: "list_all (\<lambda>c. c \<noteq> 35) path" and p63: "list_all (\<lambda>c. c \<noteq> 63) path"
    by (auto simp: plain_path_def list_all_iff dest: path_char_props)
  show ?thesis
  proof (cases t)
    case Nil
    then show ?thesis using p35 p63 by (simp add: takeWhile_id)
  next
    case (Cons x xs)
    show ?thesis
    proof (cases "x = 35")
      case True
      with Cons p35 have "takeWhile (\<lambda>c. c \<noteq> 35) (path @ t) = path"
        by (intro takeWhile_all_then) simp_all
      then show ?thesis using p63 by (simp add: takeWhile_id)
    next
      case False
      with Cons assms(2) have x: "x = 63" by (simp add: url_tail_def)
      have "takeWhile (\<lambda>c. c \<noteq> 35) (path @ t) = path @ takeWhile (\<lambda>c. c \<noteq> 35) t"
        using p35 by (simp add: takeWhile_append2 list_all_iff)
      also have "takeWhile (\<lambda>c. c \<noteq> 35) t = 63 # takeWhile (\<lambda>c. c \<noteq> 35) xs"
        using Cons x by simp
      finally show ?thesis
        using p63 by (simp add: takeWhile_all_then)
    qed
  qed
qed

lemma cut_at_fst: "fst (cut_at c w) = takeWhile (\<lambda>x. x \<noteq> c) w"
proof (cases "c \<in> set w")
  case True
  then show ?thesis by (simp add: cut_at_def split_once_def)
next
  case False
  then have "takeWhile (\<lambda>x. x \<noteq> c) w = w"
    by (auto simp: takeWhile_eq_all_conv)
  with False show ?thesis by (simp add: cut_at_def del: takeWhile_eq_all_conv)
qed

lemma urlsplit_plain:
  assumes sch: "sch \<noteq> []" "ascii_alpha (hd sch)" "list_all scheme_char sch"
    and host: "list_all host_char host" and path: "plain_path path" and tail: "url_tail t"
  shows "\<exists>q f. urlsplit lib (sch @ asc ''://'' @ host @ path @ t) =
     Inr \<lparr>sr_scheme = py_lower sch, sr_netloc = host, sr_path = path,
          sr_query = q, sr_fragment = f\<rparr>"
proof -
  let ?F = "filter (\<lambda>c. c \<noteq> 9 \<and> c \<noteq> 13 \<and> c \<noteq> (10::nat))"
  let ?U = "sch @ asc ''://'' @ host @ path @ t"
  obtain c cs where s: "sch = c # cs" using sch(1) by (cases sch) auto
  with sch(3) have "\<not> c \<le> 32" by (auto dest: scheme_char_props)
  then have l: "py_lstrip (\<lambda>c. c \<le> 32) ?U = ?U"
    using s by (simp add: py_lstrip_def)
  have fs: "?F sch = sch"
    using sch(3) by (auto simp: list_all_iff filter_id_conv dest: scheme_char_props)
  have fh: "?F host = host"
    using host by (auto simp: list_all_iff filter_id_conv dest: host_char_props)
  have fp: "?F path = path"
    using path by (auto simp: plain_path_def list_all_iff filter_id_conv dest: path_char_props)
  have f: "?F ?U = sch @ asc '':'' @ (asc ''//'' @ host @ path @ ?F t)"
    by (simp add: fs fh fp asc_def)
  have t': "url_tail (?F t)" by (rule url_tail_filter [OF tail])
  have sp: "split_scheme (?F ?U) = (py_lower sch, asc ''//'' @ host @ path @ ?F t)"
    unfolding f by (rule split_scheme_plain [OF sch])
  have pt: "path @ ?F t = [] \<or> \<not> (\<lambda>c. \<not> netloc_end c) (hd (path @ ?F t))"
    using path t' by (cases path; cases "?F t") (auto simp: plain_path_def url_tail_def netloc_end_def)
  have hn: "list_all (\<lambda>c. \<not> netloc_end c) host"
    using host by (auto simp: list_all_iff dest: host_char_props)
  have nl: "splitnetloc (asc ''//'' @ host @ path @ ?F t) = (host, path @ ?F t)"
    using takeWhile_all_then [OF hn pt] dropWhile_all_then [OF hn pt]
    by (simp add: splitnetloc_def asc_def)
  have nb: "91 \<notin> set host" "93 \<notin> set host" and ia: "is_ascii host"
    using host by (auto simp: list_all_iff is_ascii_def dest: host_char_props)
  have t2: "take 2 (asc ''//'' @ host @ path @ ?F t) = asc ''//''"
    by (simp add: asc_def)
  have ps: "takeWhile (\<lambda>c. c \<noteq> 63) (takeWhile (\<lambda>c. c \<noteq> 35) (path @ ?F t)) = path"
    by (rule plain_path_split [OF path t'])
  have "urlsplit lib ?U =
     Inr \<lparr>sr_scheme = py_lower sch, sr_netloc = host, sr_path = path,
          sr_query = snd (cut_at 63 (fst (cut_at 35 (path @ ?F t)))),
          sr_fragment = snd (cut_at 35 (path @ ?F t))\<rparr>"
    using nb ia
    by (simp only: urlsplit_def l Let_def case_prod_beta sp nl t2 cut_at_fst ps
        fst_conv snd_conv simp_thms if_True if_False)
  then show ?thesis by blast
qed

lemma plain_path_rstrip:
  assumes "plain_path path"
  shows "plain_path (py_rstrip (\<lambda>c. c = 47) path)"
proof -
  let ?p = "py_rstrip (\<lambda>c. c = 47) path"
  have pre: "prefix ?p path" by (rule py_rstrip_prefix)
  then obtain r where r: "path = ?p @ r" by (auto simp: prefix_def)
  have "list_all path_char ?p"
    using assms r by (metis list_all_append plain_path_def)
  moreover have "?p = [] \<or> hd ?p = 47"
  proof (cases "?p = []")
    case False
    then have "hd path = hd ?p" using r by (metis hd_append2)
    moreover have "path \<noteq> []" using False r by auto
    ultimately show ?thesis using assms by (simp add: plain_path_def)
  qed simp
  ultimately show ?thesis by (simp add: plain_path_def)
qed

lemma normalize_url_unparse:
  assumes sch: "sch \<noteq> []" "ascii_alpha (hd sch)" "list_all scheme_char sch"
    and host: "list_all host_char host" and path: "plain_path path" and tail: "url_tail tail"
  shows "normalize_url lib (PStr (sch @ asc ''://'' @ host @ path @ tail)) =
     urlunparse lib (py_lower sch) (strip_www (py_lower host)) (py_rstrip (\<lambda>c. c = 47) path)"
proof -
  obtain t where t: "url_tail t"
    and st: "py_strip py_isspace (sch @ asc ''://'' @ host @ path @ tail)
       = sch @ asc ''://'' @ host @ path @ t"
    using plain_strip [OF sch(1,3) host path tail] by blast
  obtain q f where us: "urlsplit lib (sch @ asc ''://'' @ host @ path @ t) =
     Inr \<lparr>sr_scheme = py_lower sch, sr_netloc = host, sr_path = path,
          sr_query = q, sr_fragment = f\<rparr>"
    using urlsplit_plain [OF sch host path t] by blast
  have "59 \<notin> set path"
    using path by (auto simp: plain_path_def list_all_iff dest: path_char_props)
  then have up: "urlparse lib (sch @ asc ''://'' @ host @ path @ t) = Inr (py_lower sch, host, path)"
    by (simp add: urlparse_def us)
  have ls: "py_lower sch \<noteq> []" using sch(1) by (simp add: py_lower_def)
  show ?thesis
    by (simp add: normalize_url_def st up ls strip_www_def Let_def)
qed

text \<open>With a netloc, every release writes the same URL.\<close>

lemma urlunparse_netloc:
  assumes "scheme \<noteq> []" "netloc \<noteq> []" "plain_path p"
  shows "urlunparse lib scheme netloc p = scheme @ asc ''://'' @ netloc @ p"
proof -
  from assms(3) have sl: "\<not> (p \<noteq> [] \<and> take 1 p \<noteq> asc ''/'')"
    by (cases p) (auto simp: plain_path_def asc_def)
  show ?thesis
    using assms(1,2) sl by (simp add: urlunparse_def Let_def asc_def)
qed

text \<open>Without one, the URL is the scheme, the colon, and the path with or without the
  two slashes before it.\<close>

lemma urlunparse_no_netloc:
  assumes "scheme \<noteq> []" "plain_path p"
  shows "urlunparse lib scheme [] p = scheme @ asc '':'' @ asc ''//'' @ p \<or>
         urlunparse lib scheme [] p = scheme @ asc '':'' @ p"
proof -
  from assms(2) have sl: "\<not> (p \<noteq> [] \<and> take 1 p \<noteq> asc ''/'')"
    by (cases p) (auto simp: plain_path_def asc_def)
  show ?thesis
    using assms(1) sl by (auto simp: urlunparse_def Let_def asc_def)
qed

lemma normalize_url_plain:
  assumes sch: "sch \<noteq> []" "ascii_alpha (hd sch)" "list_all scheme_char sch"
    and host: "list_all host_char host" and path: "plain_path path" and tail: "url_tail tail"
    and ne: "strip_www (py_lower host) \<noteq> []"
  shows "normalize_url lib (PStr (sch @ asc ''://'' @ host @ path @ tail)) =
     py_lower sch @ asc ''://'' @ strip_www (py_lower host) @ py_rstrip (\<lambda>c. c = 47) path"
proof -
  have ls: "py_lower sch \<noteq> []" using sch(1) by (simp add: py_lower_def)
  show ?thesis
    unfolding normalize_url_unparse [OF sch host path tail]
    by (rule urlunparse_netloc [OF ls ne plain_path_rstrip [OF path]])
qed

lemmas url_eval =
  ascii_alpha_def scheme_char_def host_char_def plain_path_def path_char_def py_isspace_def
  url_tail_def uses_netloc_def py_lower_def lower_cp_def strip_www_def py_rstrip_def asc_def

lemma host_char_lower: "host_char c \<Longrightarrow> host_char (lower_cp c)"
  by (auto simp: host_char_def lower_cp_def)

lemma host_char_strip_www:
  assumes "list_all host_char host"
  shows "list_all host_char (strip_www (py_lower host))"
proof -
  have l: "list_all host_char (py_lower host)"
    using assms by (auto simp: py_lower_def list_all_iff dest: host_char_lower)
  then have "list_all host_char (drop 4 (py_lower host))"
    by (auto simp: list_all_iff dest: in_set_dropD)
  with l show ?thesis by (simp add: strip_www_def)
qed

lemma py_lower_strip_www: "py_lower (strip_www (py_lower host)) = strip_www (py_lower host)"
  by (simp add: strip_www_def py_lower_def drop_map lower_cp_idem)

lemma strip_www_fixed: "strip_www h = h \<longleftrightarrow> \<not> prefix (asc ''www.'') h"
proof (cases "prefix (asc ''www.'') h")
  case True
  then have "4 \<le> length h" using prefix_length_le [of "asc ''www.''" h] by (simp add: asc_def)
  then have "length (drop 4 h) \<noteq> length h" by simp
  then have "drop 4 h \<noteq> h" by metis
  with True show ?thesis by (simp add: strip_www_def)
next
  case False
  then show ?thesis by (simp add: strip_www_def)
qed

lemma https_scheme:
  "asc ''https'' \<noteq> []" "ascii_alpha (hd (asc ''https''))" "list_all scheme_char (asc ''https'')"
  "py_lower (asc ''https'') = asc ''https''"
  by (simp_all add: url_eval)

lemma normalize_https_unparse:
  assumes "list_all host_char host" "plain_path path" "url_tail tail"
  shows "normalize_url lib (PStr (https_url host path tail)) =
     urlunparse lib (asc ''https'') (strip_www (py_lower host)) (py_rstrip (\<lambda>c. c = 47) path)"
proof -
  have "https_url host path tail = asc ''https'' @ asc ''://'' @ host @ path @ tail"
    by (simp add: https_url_def asc_def)
  then show ?thesis
    using normalize_url_unparse [OF https_scheme(1,2,3) assms, of lib]
    by (simp only: https_scheme(4))
qed

lemma https_url_append: "https_url h p [] = asc ''https'' @ asc ''://'' @ h @ p"
  by (simp add: https_url_def asc_def)

lemma normalize_https_plain:
  assumes "list_all host_char host" "plain_path path" "url_tail tail"
    and "strip_www (py_lower host) \<noteq> []"
  shows "normalize_url lib (PStr (https_url host path tail)) =
     https_url (strip_www (py_lower host)) (py_rstrip (\<lambda>c. c = 47) path) []"
  unfolding normalize_https_unparse [OF assms(1,2,3)] https_url_append
  by (rule urlunparse_netloc [OF https_scheme(1) assms(4) plain_path_rstrip [OF assms(2)]])

lemma office_url:
  "normalize_url lib (PStr (asc ''https://www.cian.ru/rent/office/123/'')) =
     asc ''https://cian.ru/rent/office/123''"
  using normalize_https_plain [of "asc ''www.cian.ru''" "asc ''/rent/office/123/''" "[]" lib]
  by (simp add: url_eval https_url_def)

lemma commercial_url:
  "normalize_url lib (PStr (asc ''https://www.cian.ru/rent/commercial/123/'')) =
     asc ''https://cian.ru/rent/commercial/123''"
  using normalize_https_plain [of "asc ''www.cian.ru''" "asc ''/rent/commercial/123/''" "[]" lib]
  by (simp add: url_eval https_url_def)

lemma office_again_url:
  "normalize_url lib (PStr (asc ''https://CIAN.ru/rent/office/123?from=map'')) =
     asc ''https://cian.ru/rent/office/123''"
  using normalize_https_plain [of "asc ''CIAN.ru''" "asc ''/rent/office/123''" "asc ''?from=map''" lib]
  by (simp add: url_eval https_url_def)

lemma example_rows_normalized:
  "normalize_urls lib [office_row, commercial_row] =
     [office_row\<lparr>url := PStr (asc ''https://cian.ru/rent/office/123'')\<rparr>,
      office_row\<lparr>url := PStr (asc ''https://cian.ru/rent/commercial/123'')\<rparr>]"
  "normalize_urls lib [office_row, office_row_again] =
     [office_row\<lparr>url := PStr (asc ''https://cian.ru/rent/office/123'')\<rparr>,
      office_row\<lparr>url := PStr (asc ''https://cian.ru/rent/office/123'')\<rparr>]"
  by (simp_all add: normalize_urls_def office_row_def commercial_row_def office_row_again_def
      office_url commercial_url office_again_url)

section \<open>Facts about the Coordinate Resolver\<close>

lemma scan_scripts_first:
  "first_geo_pair fs ss = Some (x, y) \<Longrightarrow> scan_scripts fs ss st = (Some x, Some y)"
proof (induction ss arbitrary: st)
  case Nil
  then show ?case by simp
next
  case (Cons s ss)
  obtain la lo where st: "st = (la, lo)" by (cases st)
  show ?case
  proof (cases "geo_pair fs s")
    case None
    with Cons.prems have "first_geo_pair fs ss = Some (x, y)" by simp
    then have "\<And>st. scan_scripts fs ss st = (Some x, Some y)" by (rule Cons.IH)
    with None show ?thesis
      unfolding st
      by (cases s) (auto simp: geo_pair_def split: option.splits)
  next
    case (Some p)
    with Cons.prems have "p = (x, y)" by simp
    with Some show ?thesis
      unfolding st
      by (cases s) (auto simp: geo_pair_def split: option.splits)
  qed
qed

lemma scan_scripts_none:
  "first_geo_pair fs ss = None \<Longrightarrow> snd (scan_scripts fs ss (la, lo)) = lo"
proof (induction ss arbitrary: la)
  case Nil
  then show ?case by simp
next
  case (Cons s ss)
  from Cons.prems have g: "geo_pair fs s = None" and r: "first_geo_pair fs ss = None"
    by (auto split: option.splits)
  have "\<And>la. snd (scan_scripts fs ss (la, lo)) = lo" using r by (rule Cons.IH)
  with g show ?case
    by (cases s) (auto simp: geo_pair_def split: option.splits)
qed

lemma match_key_no_prefix: "\<not> prefix key s \<Longrightarrow> match_key key s = None"
  by (simp add: match_key_def)

lemma page_body_search:
  "coord_search (page_body a b) = Some (asc ''55.5'', asc ''37.5'')"
  by (simp add: page_body_def inline_coords_def latitude_key_def longitude_key_def asc_def
      match_key_def num_char_def py_isspace_def)

lemma decimal_examples:
  "decimal_float (asc ''55.5'') = Some (111 / 2)" "decimal_float (asc ''37.5'') = Some (75 / 2)"
  "decimal_float (asc ''1.2.3'') = None"
  by (simp_all add: decimal_float_def digit_char_def asc_def)

lemma geo_script_pair: "x \<noteq> 0 \<Longrightarrow> y \<noteq> 0 \<Longrightarrow> geo_pair fs (Some (geo_script x y)) = Some (x, y)"
  by (simp add: geo_pair_def geo_entries_def geo_script_def dict_get_def asc_def)

lemma equator_script_pair: "geo_pair fs (Some (geo_script 0 10)) = None"
  by (simp add: geo_pair_def geo_entries_def geo_script_def dict_get_def asc_def)

text \<open>A group of the inline pattern that is not a float literal: the exception leaves the
  resolver (and the processing of the link).\<close>

lemma inline_group_not_a_float:
  "resolve_coordinates decimal_float
     \<lparr>page_text = inline_coords (asc ''1.2.3'') (asc ''4.5''), ld_scripts = []\<rparr> = Inl ValueError"
proof -
  have "coord_search (inline_coords (asc ''1.2.3'') (asc ''4.5'')) = Some (asc ''1.2.3'', asc ''4.5'')"
    by (simp add: inline_coords_def latitude_key_def longitude_key_def asc_def
        match_key_def num_char_def py_isspace_def)
  then show ?thesis
    by (simp add: resolve_coordinates_def decimal_examples)
qed

section \<open>Facts about the scrapers' control structure\<close>

lemma attempts_same: "cian_attempts w p l a n = avito_attempts w p l a n"
  by (induction n arbitrary: a) (simp_all split: item_outcome.splits)

lemma link_same: "cian_link w p l = avito_link w p l"
  by (simp add: cian_link_def avito_link_def attempts_same)

lemma pages_same: "cian_pages w p n e = avito_pages w p n e"
proof (induction n arbitrary: p e)
  case 0
  then show ?case by simp
next
  case (Suc n)
  have "cian_link w p = avito_link w p"
    by (rule ext) (rule link_same)
  with Suc show ?case
    by (simp add: Let_def split: page_outcome.splits)
qed

lemma trace_simps [simp]:
  "pages_requested [] = []" "pages_requested (GetPage q # es) = q # pages_requested es"
  "pages_requested (Pause # es) = pages_requested es"
  "pages_requested (GetItem q l k # es) = pages_requested es"
  "pages_requested (Backoff b # es) = pages_requested es"
  "pages_requested (Append r # es) = pages_requested es"
  "pages_requested (es @ fs) = pages_requested es @ pages_requested fs"
  "backoffs [] = []" "backoffs (GetPage q # es) = backoffs es"
  "backoffs (Pause # es) = backoffs es"
  "backoffs (GetItem q l k # es) = backoffs es"
  "backoffs (Backoff b # es) = b # backoffs es"
  "backoffs (Append r # es) = backoffs es"
  "backoffs (es @ fs) = backoffs es @ backoffs fs"
  "item_requests [] = []" "item_requests (GetPage q # es) = item_requests es"
  "item_requests (Pause # es) = item_requests es"
  "item_requests (GetItem q l k # es) = (q, l, k) # item_requests es"
  "item_requests (Backoff b # es) = item_requests es"
  "item_requests (Append r # es) = item_requests es"
  "item_requests (es @ fs) = item_requests es @ item_requests fs"
  by (simp_all add: pages_requested_def backoffs_def item_requests_def)

lemma attempts_trace:
  "pages_requested (fst (cian_attempts w p l a n)) = [] \<and>
   prefix (item_requests (fst (cian_attempts w p l a n))) (map (\<lambda>k. (p, l, k)) [a ..< a + n]) \<and>
   prefix (backoffs (fst (cian_attempts w p l a n))) (map (\<lambda>k. min (2 ^ k) 8) [a ..< a + n])"
proof (induction n arbitrary: a)
  case 0
  then show ?case by simp
next
  case (Suc n)
  have u: "[a ..< a + Suc n] = a # [Suc a ..< Suc a + n]"
    by (simp add: upt_rec)
  show ?case
    using Suc [of "Suc a"] unfolding u
    by (cases "get_item w p l a") (simp_all add: case_prod_beta Let_def)
qed

lemma link_trace:
  "pages_requested (cian_link w p l) = [] \<and>
   prefix (item_requests (cian_link w p l)) [(p, l, 1), (p, l, 2), (p, l, 3)] \<and>
   prefix (backoffs (cian_link w p l)) [2, 4, 8]"
proof -
  have u: "[1 ..< 1 + ITEM_RETRIES] = [1, 2, 3]"
    by (simp add: ITEM_RETRIES_def upt_rec)
  have "pages_requested (case r of None \<Rightarrow> [] | Some body \<Rightarrow>
          (case build_record w l body of None \<Rightarrow> [] | Some row \<Rightarrow> [Append row])) = []"
    and "item_requests (case r of None \<Rightarrow> [] | Some body \<Rightarrow>
          (case build_record w l body of None \<Rightarrow> [] | Some row \<Rightarrow> [Append row])) = []"
    and "backoffs (case r of None \<Rightarrow> [] | Some body \<Rightarrow>
          (case build_record w l body of None \<Rightarrow> [] | Some row \<Rightarrow> [Append row])) = []" for r
    by (simp_all split: option.splits)
  then show ?thesis
    using attempts_trace [of w p l 1 ITEM_RETRIES] unfolding u
    by (simp add: cian_link_def case_prod_beta)
qed

lemma link_items:
  "(q, l', k) \<in> set (item_requests (cian_link w p l)) \<Longrightarrow> q = p \<and> l' = l \<and> 1 \<le> k \<and> k \<le> 3"
proof -
  assume a: "(q, l', k) \<in> set (item_requests (cian_link w p l))"
  have "set (item_requests (cian_link w p l)) \<subseteq> set [(p, l, 1), (p, l, 2), (p, l, 3)]"
    using link_trace [of w p l] by (blast dest: set_mono_prefix)
  with a have "(q, l', k) \<in> set [(p, l, 1), (p, l, 2), (p, l, 3)]" by (rule subsetD [rotated])
  then show ?thesis by auto
qed

lemma link_backoffs:
  "b \<in> set (backoffs (cian_link w p l)) \<Longrightarrow> b = 2 \<or> b = 4 \<or> b = 8"
proof -
  assume a: "b \<in> set (backoffs (cian_link w p l))"
  have "set (backoffs (cian_link w p l)) \<subseteq> set [2, 4, 8]"
    using link_trace [of w p l] by (blast dest: set_mono_prefix)
  with a have "b \<in> set [2, 4, 8 :: nat]" by (rule subsetD [rotated])
  then show ?thesis by auto
qed

lemma links_trace:
  "pages_requested (concat (map (cian_link w p) ls)) = [] \<and>
   set (item_requests (concat (map (cian_link w p) ls))) \<subseteq> {(p, l, k) | l k. l \<in> set ls \<and> 1 \<le> k \<and> k \<le> 3} \<and>
   set (backoffs (concat (map (cian_link w p) ls))) \<subseteq> {2, 4, 8}"
proof (induction ls)
  case Nil
  then show ?case by simp
next
  case (Cons l ls)
  have 1: "set (item_requests (cian_link w p l)) \<subseteq> {(p, l', k) | l' k. l' \<in> set (l # ls) \<and> 1 \<le> k \<and> k \<le> 3}"
    using link_items [of _ _ _ w p l] by fastforce
  have 2: "set (backoffs (cian_link w p l)) \<subseteq> {2, 4, 8}"
    using link_backoffs [of _ w p l] by blast
  have 3: "pages_requested (cian_link w p l) = []"
    using link_trace [of w p l] by blast
  from Cons have 4: "set (item_requests (concat (map (cian_link w p) ls))) \<subseteq> {(p, l', k) | l' k. l' \<in> set (l # ls) \<and> 1 \<le> k \<and> k \<le> 3}"
    by fastforce
  from 1 2 3 4 Cons show ?case by simp
qed

lemma pages_items:
  "(q, l, k) \<in> set (item_requests (cian_pages w p n e)) \<Longrightarrow>
     l \<in> set (take 40 (page_links w q)) \<and> 1 \<le> k \<and> k \<le> 3"
proof (induction n arbitrary: p e)
  case 0
  then show ?case by simp
next
  case (Suc n)
  show ?case
  proof (cases "get_page w p")
    case (PageLinks raw)
    show ?thesis
    proof (cases "fromkeys [] raw = []")
      case True
      with Suc PageLinks show ?thesis by (auto simp: Let_def split: if_splits)
    next
      case False
      from Suc.prems PageLinks False
      consider "(q, l, k) \<in> set (item_requests (concat (map (cian_link w p) (take 40 (fromkeys [] raw)))))"
        | "(q, l, k) \<in> set (item_requests (cian_pages w (p + 1) n 0))"
        by (auto simp: Let_def)
      then show ?thesis
      proof cases
        case 1
        with links_trace [of w p "take 40 (fromkeys [] raw)"]
        have "q = p \<and> l \<in> set (take 40 (fromkeys [] raw)) \<and> 1 \<le> k \<and> k \<le> 3" by auto
        with PageLinks show ?thesis by (simp add: page_links_def)
      next
        case 2
        then show ?thesis by (rule Suc.IH)
      qed
    qed
  qed (use Suc.prems in simp_all)
qed

lemma pages_backoffs:
  "b \<in> set (backoffs (cian_pages w p n e)) \<Longrightarrow> b = 2 \<or> b = 4 \<or> b = 8"
proof (induction n arbitrary: p e)
  case 0
  then show ?case by simp
next
  case (Suc n)
  show ?case
  proof (cases "get_page w p")
    case (PageLinks raw)
    show ?thesis
    proof (cases "fromkeys [] raw = []")
      case True
      with Suc PageLinks show ?thesis by (auto simp: Let_def split: if_splits)
    next
      case False
      from Suc.prems PageLinks False
      consider "b \<in> set (backoffs (concat (map (cian_link w p) (take 40 (fromkeys [] raw)))))"
        | "b \<in> set (backoffs (cian_pages w (p + 1) n 0))"
        by (auto simp: Let_def)
      then show ?thesis
      proof cases
        case 1
        with links_trace [of w p "take 40 (fromkeys [] raw)"] show ?thesis by auto
      next
        case 2
        then show ?thesis by (rule Suc.IH)
      qed
    qed
  qed (use Suc.prems in simp_all)
qed

text \<open>The pages requested by the loop, in terms of what follows the first page.\<close>

lemma pages_requested_step:
  "pages_requested (cian_pages w p (Suc n) e) =
     p # (case get_page w p of
            PageBlocked \<Rightarrow> []
          | PageFailed \<Rightarrow> []
          | PageLinks raw \<Rightarrow>
              if fromkeys [] raw = [] then
                (if 3 \<le> e + 1 then [] else pages_requested (cian_pages w (p + 1) n (e + 1)))
              else pages_requested (cian_pages w (p + 1) n 0))"
  using links_trace [of w p]
  by (simp add: Let_def split: page_outcome.splits)

lemma pages_requested_0: "pages_requested (cian_pages w p 0 e) = []"
  by simp

lemma pages_range:
  "q \<in> set (pages_requested (cian_pages w p n e)) \<Longrightarrow> p \<le> q \<and> q < p + n"
proof (induction n arbitrary: p e)
  case 0
  then show ?case by simp
next
  case (Suc n)
  from Suc.prems show ?case
    unfolding pages_requested_step
    by (auto split: page_outcome.splits if_splits dest!: Suc.IH)
qed

lemma pages_stop_at:
  assumes "p \<le> q" and "get_page w q = PageBlocked \<or> get_page w q = PageFailed"
    and "q' \<in> set (pages_requested (cian_pages w p n e))"
  shows "q' \<le> q"
  using assms
proof (induction n arbitrary: p e)
  case 0
  then show ?case by simp
next
  case (Suc n)
  show ?case
  proof (cases "p = q")
    case True
    with Suc.prems show ?thesis
      unfolding pages_requested_step by auto
  next
    case False
    with Suc.prems(1) have le: "p + 1 \<le> q" by simp
    from Suc.prems(3) have "q' = p \<or> (\<exists>e'. q' \<in> set (pages_requested (cian_pages w (p + 1) n e')))"
      unfolding pages_requested_step
      by (auto split: page_outcome.splits if_splits)
    then show ?thesis
      using Suc.IH [OF le Suc.prems(2)] Suc.prems(1) by auto
  qed
qed

lemma pages_empty_run:
  assumes "1 \<le> k" and "\<forall>j < k. empty_page w (p + j)" and "3 \<le> e + k"
    and "q' \<in> set (pages_requested (cian_pages w p n e))"
  shows "q' < p + k"
  using assms
proof (induction n arbitrary: p e k)
  case 0
  then show ?case by simp
next
  case (Suc n)
  from Suc.prems(1,2) have "empty_page w p" by (metis add.right_neutral less_eq_Suc_le One_nat_def)
  then obtain raw where raw: "get_page w p = PageLinks raw" "fromkeys [] raw = []"
    by (auto simp: empty_page_def)
  show ?case
  proof (cases "3 \<le> e + 1")
    case True
    with Suc.prems(4) raw have "q' = p"
      unfolding pages_requested_step by simp
    with Suc.prems(1) show ?thesis by simp
  next
    case False
    with Suc.prems(3) have k: "1 \<le> k - 1" "3 \<le> (e + 1) + (k - 1)" by simp_all
    have e: "\<forall>j < k - 1. empty_page w (p + 1 + j)"
      using Suc.prems(2) by (auto simp: less_diff_conv)
    from Suc.prems(4) raw False
    have "q' = p \<or> q' \<in> set (pages_requested (cian_pages w (p + 1) n (e + 1)))"
      unfolding pages_requested_step by simp
    then show ?thesis
    proof
      assume "q' = p"
      with Suc.prems(1) show ?thesis by simp
    next
      assume "q' \<in> set (pages_requested (cian_pages w (p + 1) n (e + 1)))"
      with Suc.IH [OF k(1) e k(2)] have "q' < p + 1 + (k - 1)" by simp
      with Suc.prems(1) show ?thesis by simp
    qed
  qed
qed

lemma pages_three_empty:
  assumes "p \<le> q" and "empty_page w q" "empty_page w (q + 1)" "empty_page w (q + 2)"
    and "q' \<in> set (pages_requested (cian_pages w p n e))"
  shows "q' \<le> q + 2"
  using assms
proof (induction n arbitrary: p e)
  case 0
  then show ?case by simp
next
  case (Suc n)
  show ?case
  proof (cases "p = q")
    case True
    have "\<forall>j < 3. empty_page w (q + j)"
      using Suc.prems(2,3,4) by (auto simp: less_Suc_eq numeral_3_eq_3)
    with Suc.prems(5) True have "q' < q + 3"
      by (intro pages_empty_run [of 3 w q e q' "Suc n"]) simp_all
    then show ?thesis by simp
  next
    case False
    with Suc.prems(1) have le: "p + 1 \<le> q" by simp
    from Suc.prems(5) have "q' = p \<or> (\<exists>e'. q' \<in> set (pages_requested (cian_pages w (p + 1) n e')))"
      unfolding pages_requested_step
      by (auto split: page_outcome.splits if_splits)
    then show ?thesis
      using Suc.IH [OF le Suc.prems(2,3,4)] Suc.prems(1) by auto
  qed
qed

lemma pages_requested_first:
  "0 < n \<Longrightarrow> p \<in> set (pages_requested (cian_pages w p n e))"
  by (cases n) (simp_all add: pages_requested_step)

lemma pages_stop_reason:
  assumes "e < 3" and "e < p" and "\<forall>j. p - e \<le> j \<and> j < p \<longrightarrow> empty_page w j"
    and "q \<in> set (pages_requested (cian_pages w p n e))"
    and "Suc q < p + n"
    and "Suc q \<notin> set (pages_requested (cian_pages w p n e))"
  shows "get_page w q = PageBlocked \<or> get_page w q = PageFailed \<or>
         (3 \<le> q \<and> empty_page w (q - 2) \<and> empty_page w (q - 1) \<and> empty_page w q)"
  using assms
proof (induction n arbitrary: p e)
  case 0
  then show ?case by simp
next
  case (Suc n)
  note step = pages_requested_step [of w p n e]
  show ?case
  proof (cases "get_page w p")
    case PageBlocked
    with Suc.prems(4) have "q = p" unfolding step by simp
    with PageBlocked show ?thesis by simp
  next
    case PageFailed
    with Suc.prems(4) have "q = p" unfolding step by simp
    with PageFailed show ?thesis by simp
  next
    case (PageLinks raw)
    define e' where "e' = (if fromkeys [] raw = [] then e + 1 else 0)"
    show ?thesis
    proof (cases "fromkeys [] raw = [] \<and> 3 \<le> e + 1")
      case True
      with Suc.prems(4) PageLinks have q: "q = p" unfolding step by simp
      from True Suc.prems(1) have e: "e = 2" by simp
      from True PageLinks have "empty_page w p" by (simp add: empty_page_def)
      moreover from Suc.prems(2,3) e have "empty_page w (p - 2)" "empty_page w (p - 1)" "3 \<le> p"
        by simp_all
      ultimately show ?thesis using q by simp
    next
      case False
      with PageLinks have req: "pages_requested (cian_pages w p (Suc n) e) =
          p # pages_requested (cian_pages w (p + 1) n e')"
        unfolding step e'_def by auto
      have i1: "e' < 3" using False Suc.prems(1) by (auto simp: e'_def)
      have i2: "e' < p + 1" using Suc.prems(2) by (auto simp: e'_def)
      have i3: "\<forall>j. p + 1 - e' \<le> j \<and> j < p + 1 \<longrightarrow> empty_page w j"
      proof (intro allI impI)
        fix j assume j: "p + 1 - e' \<le> j \<and> j < p + 1"
        show "empty_page w j"
        proof (cases "j = p")
          case True
          with j have "e' \<noteq> 0" by auto
          then have "fromkeys [] raw = []" by (auto simp: e'_def split: if_splits)
          with PageLinks True show ?thesis by (simp add: empty_page_def)
        next
          case False
          with j have "j < p" by simp
          moreover from j have "p - e \<le> j" by (auto simp: e'_def split: if_splits)
          ultimately show ?thesis using Suc.prems(3) by blast
        qed
      qed
      show ?thesis
      proof (cases "q = p")
        case True
        from Suc.prems(5) True have "0 < n" by simp
        then have "p + 1 \<in> set (pages_requested (cian_pages w (p + 1) n e'))"
          by (rule pages_requested_first)
        with Suc.prems(6) True req show ?thesis by simp
      next
        case False
        with Suc.prems(4) req have a: "q \<in> set (pages_requested (cian_pages w (p + 1) n e'))" by simp
        from Suc.prems(5) have b: "Suc q < p + 1 + n" by simp
        from Suc.prems(6) req have c: "Suc q \<notin> set (pages_requested (cian_pages w (p + 1) n e'))"
          by simp
        show ?thesis by (rule Suc.IH [OF i1 i2 i3 a b c])
      qed
    qed
  qed
qed

lemma link_attempts_bounds:
  "length (item_requests (cian_link w p l)) \<le> 3 \<and> prefix (backoffs (cian_link w p l)) [2, 4, 8]"
  using link_trace [of w p l] by (auto dest: prefix_length_le)

lemma pages_requested_prefix:
  "prefix (pages_requested (cian_pages w p n e)) [p ..< p + n]"
proof (induction n arbitrary: p e)
  case 0
  then show ?case by simp
next
  case (Suc n)
  have u: "[p ..< p + Suc n] = p # [p + 1 ..< p + 1 + n]" by (simp add: upt_rec)
  show ?case
    unfolding pages_requested_step u prefix_Cons
    using Suc.IH [of "p + 1"] by (auto simp del: upt_Suc split: page_outcome.splits)
qed

lemma link_all_blocked:
  assumes "\<forall>k. 1 \<le> k \<and> k \<le> 3 \<longrightarrow> get_item w p l k = ItemBlocked"
  shows "cian_link w p l =
    [Pause, GetItem p l 1, Backoff 2, GetItem p l 2, Backoff 4, GetItem p l 3, Backoff 8]"
proof -
  from assms have "get_item w p l 1 = ItemBlocked" "get_item w p l 2 = ItemBlocked"
    "get_item w p l 3 = ItemBlocked" by simp_all
  then show ?thesis
    by (simp add: cian_link_def ITEM_RETRIES_def eval_nat_numeral)
qed

lemma link_first_ok:
  assumes "get_item w p l 1 = ItemOk body"
  shows "item_requests (cian_link w p l) = [(p, l, 1)] \<and> backoffs (cian_link w p l) = []"
  using assms
  by (simp add: cian_link_def ITEM_RETRIES_def eval_nat_numeral split: option.splits)

lemma link_names_distinct: "link_a \<noteq> link_b"
  by (simp add: link_a_def link_b_def asc_def)

lemma demo_site_run:
  "scrape_cian demo_site 10 =
     [GetPage 1,
      Pause, GetItem 1 link_a 1, Backoff 2, GetItem 1 link_a 2, Backoff 4, GetItem 1 link_a 3,
      Append link_a,
      Pause, GetItem 1 link_b 1, Append link_b,
      GetPage 2, GetPage 3, GetPage 4]"
  using link_names_distinct
  by (simp add: scrape_cian_def demo_site_def cian_link_def ITEM_RETRIES_def eval_nat_numeral)

lemma demo_site_pages:
  "empty_page demo_site 2 \<and> empty_page demo_site 3 \<and> empty_page demo_site 4 \<and>
   \<not> empty_page demo_site 5 \<and> page_links demo_site 1 = [link_a, link_b]"
  using link_names_distinct
  by (simp add: empty_page_def page_links_def demo_site_def)

section \<open>Facts about floats and the derived price\<close>

lemma bit_length_unique:
  "2 ^ k \<le> n \<Longrightarrow> n < 2 ^ Suc k \<Longrightarrow> bit_length n = Suc k"
proof (induction k arbitrary: n)
  case 0
  then have "n = 1" by simp
  then show ?case by (simp add: bit_length.simps [of 1] bit_length.simps [of 0])
next
  case (Suc k)
  have "2 ^ k \<le> n div 2" using Suc.prems(1) by simp
  moreover have "n div 2 < 2 ^ Suc k" using Suc.prems(2) by simp
  ultimately have "bit_length (n div 2) = Suc k" by (rule Suc.IH)
  moreover have "0 < (2 :: int) ^ Suc k" by simp
  with Suc.prems(1) have "\<not> n \<le> 0" by linarith
  ultimately show ?case by (simp add: bit_length.simps [of n])
qed

lemma round_half_even_unique:
  "of_int n - 1 / 2 < x \<Longrightarrow> x < of_int n + 1 / 2 \<Longrightarrow> round_half_even x = n"
proof -
  assume a: "of_int n - 1 / 2 < x" and b: "x < of_int n + 1 / 2"
  show ?thesis
  proof (cases "of_int n \<le> x")
    case True
    with b have f: "\<lfloor>x\<rfloor> = n" by (intro floor_unique) simp_all
    with b show ?thesis by (simp add: round_half_even_def Let_def)
  next
    case False
    with a have f: "\<lfloor>x\<rfloor> = n - 1" by (intro floor_unique) simp_all
    with a show ?thesis by (simp add: round_half_even_def Let_def)
  qed
qed

lemma round_half_even_tie:
  "x = of_int n + 1 / 2 \<Longrightarrow> round_half_even x = (if even n then n else n + 1)"
proof -
  assume x: "x = of_int n + 1 / 2"
  then have f: "\<lfloor>x\<rfloor> = n" by (intro floor_unique) simp_all
  with x show ?thesis by (simp add: round_half_even_def Let_def)
qed

lemma round_half_even_int: "round_half_even (of_int n) = n"
  by (rule round_half_even_unique) simp_all

lemma floor_power2_bounds:
  fixes x :: rat
  assumes "2 ^ k \<le> x" "x < 2 ^ Suc k"
  shows "2 ^ k \<le> \<lfloor>x\<rfloor>" "\<lfloor>x\<rfloor> < 2 ^ Suc k"
proof -
  have "(of_int (2 ^ k) :: rat) \<le> x" using assms(1) by simp
  then show "2 ^ k \<le> \<lfloor>x\<rfloor>" by (simp only: le_floor_iff)
  have "x < of_int (2 ^ Suc k)" using assms(2) by simp
  then show "\<lfloor>x\<rfloor> < 2 ^ Suc k" by (simp only: floor_less_iff)
qed

lemma power_int_neg_2:
  "power_int (2 :: rat) (- int j) = 1 / 2 ^ j"
  by (simp add: power_int_def field_simps)

lemma binade_unique:
  assumes "power_int 2 e \<le> x" "x < power_int 2 (e + 1)"
  shows "binade x = e"
proof (cases "1 \<le> x")
  case True
  have e0: "0 \<le> e"
  proof (rule ccontr)
    assume "\<not> 0 \<le> e"
    then have "e + 1 = - int (nat (- (e + 1)))" by simp
    then have "power_int (2 :: rat) (e + 1) = 1 / 2 ^ nat (- (e + 1))"
      by (metis power_int_neg_2)
    also have "\<dots> \<le> 1" by simp
    finally show False using assms(2) True by simp
  qed
  then obtain k where k: "e = int k" by (metis nonneg_int_cases)
  have "2 ^ k \<le> x" "x < 2 ^ Suc k"
    using assms unfolding k by (simp_all add: power_int_add)
  then have "bit_length \<lfloor>x\<rfloor> = Suc k"
    by (intro bit_length_unique floor_power2_bounds)
  with True k show ?thesis by (simp add: binade_def)
next
  case False
  have "power_int (2 :: rat) e < 1" using assms(1) False by simp
  have e0: "e < 0"
  proof (rule ccontr)
    assume "\<not> e < 0"
    then have "(1 :: rat) \<le> power_int 2 e" by (intro one_le_power_int) simp_all
    with \<open>power_int (2 :: rat) e < 1\<close> show False by simp
  qed
  define j where "j = nat (- e - 1)"
  have e: "e = - int (Suc j)" and e1: "e + 1 = - int j"
    using e0 by (simp_all add: j_def)
  have lo: "1 / 2 ^ Suc j \<le> x"
    using assms(1) unfolding e power_int_neg_2 .
  have hi: "x < 1 / 2 ^ j"
    using assms(2) unfolding e1 power_int_neg_2 .
  have x0: "0 < x" using lo by (meson divide_pos_pos less_le_trans zero_less_numeral zero_less_one zero_less_power)
  have hi': "2 ^ j < 1 / x"
    using hi x0 by (simp add: field_simps)
  have lo': "1 / x \<le> 2 ^ Suc j"
    using lo x0 by (simp add: field_simps)
  show ?thesis
  proof (cases "x = 1 / 2 ^ Suc j")
    case True
    then have "1 / x = 2 ^ Suc j" by simp
    then have "2 ^ Suc j \<le> 1 / x" "1 / x < 2 ^ Suc (Suc j)" by simp_all
    then have b: "bit_length \<lfloor>1 / x\<rfloor> = Suc (Suc j)"
      by (intro bit_length_unique floor_power2_bounds)
    have "int (Suc (Suc j)) - 1 = int (Suc j)" by simp
    then have "x * power_int 2 (int (Suc (Suc j)) - 1) = 1"
      using True by (simp only: power_int_of_nat) simp
    with False b e show ?thesis by (simp add: binade_def Let_def)
  next
    case ne: False
    with lo have "1 / 2 ^ Suc j < x" by simp
    then have "1 / x < 2 ^ Suc j" using x0 by (simp add: field_simps)
    with hi' have b: "bit_length \<lfloor>1 / x\<rfloor> = Suc j"
      by (intro bit_length_unique floor_power2_bounds) simp_all
    have "int (Suc j) - 1 = int j" by simp
    then have "x * power_int 2 (int (Suc j) - 1) \<noteq> 1"
      using hi x0 by (simp only: power_int_of_nat) (simp add: field_simps)
    with False b e show ?thesis by (simp add: binade_def Let_def)
  qed
qed

lemma nearest_double_pos:
  assumes "power_int 2 b \<le> x" "x < power_int 2 (b + 1)"
    and "e = max (b - 52) (- 1074)"
    and "round_half_even (x / power_int 2 e) = m"
    and "of_int m * power_int 2 e < (2 :: rat) ^ 1024"
  shows "nearest_double x = Fl (of_int m * power_int 2 e)"
proof -
  have "0 < power_int (2 :: rat) b" by simp
  from this assms(1) have x: "0 < x" by (rule less_le_trans)
  then have a: "\<bar>x\<bar> = x" by simp
  have b: "binade x = b" using assms(1,2) by (rule binade_unique)
  show ?thesis
    using x assms(5) unfolding nearest_double_def a b Let_def assms(3) [symmetric] assms(4)
    by simp
qed

lemma nearest_double_normal:
  assumes "2 ^ 52 \<le> m" "m < 2 ^ 53" "- 1074 \<le> e" "e \<le> 971"
  shows "nearest_double (of_int m * power_int 2 e) = Fl (of_int m * power_int 2 e)"
proof (rule nearest_double_pos [where b = "e + 52" and e = e])
  have p: "(0 :: rat) < power_int 2 e" by simp
  have "power_int (2 :: rat) (e + 52) = 2 ^ 52 * power_int 2 e"
    by (simp add: power_int_add)
  also have "\<dots> \<le> of_int m * power_int 2 e"
  proof -
    have "(2 :: rat) ^ 52 \<le> of_int m" using assms(1) by (metis of_int_le_iff of_int_numeral of_int_power)
    then show ?thesis using p by (simp only: mult_le_cancel_right_pos)
  qed
  finally show "power_int 2 (e + 52) \<le> rat_of_int m * power_int 2 e" .
  have "power_int (2 :: rat) (e + 52 + 1) = 2 ^ 53 * power_int 2 e"
    by (simp add: power_int_add)
  moreover have "of_int m * power_int 2 e < 2 ^ 53 * power_int (2 :: rat) e"
  proof -
    have "of_int m < (2 :: rat) ^ 53" using assms(2) by (metis of_int_less_iff of_int_numeral of_int_power)
    then show ?thesis using p by (simp only: mult_less_cancel_right_pos)
  qed
  ultimately show "rat_of_int m * power_int 2 e < power_int 2 (e + 52 + 1)" by simp
  show "e = max (e + 52 - 52) (- 1074)" using assms(3) by simp
  show "round_half_even (rat_of_int m * power_int 2 e / power_int 2 e) = m"
    by (simp add: round_half_even_int)
  have "of_int m * power_int 2 e < 2 ^ 53 * power_int (2 :: rat) e"
  proof -
    have "of_int m < (2 :: rat) ^ 53" using assms(2) by (metis of_int_less_iff of_int_numeral of_int_power)
    then show ?thesis using p by (simp only: mult_less_cancel_right_pos)
  qed
  also have "\<dots> = power_int 2 (e + 53)" by (simp add: power_int_add)
  also have "\<dots> \<le> power_int 2 1024" using assms(4) by (intro power_int_increasing) simp_all
  finally show "rat_of_int m * power_int 2 e < 2 ^ 1024" by simp
qed

lemma power_int_2_neg_numeral:
  "power_int (2 :: rat) (- numeral k) = 1 / 2 ^ numeral k"
  by (simp add: power_int_def power_divide inverse_eq_divide)

lemma nearest_double_quotient:
  "nearest_double (100002 / 80) = Fl (2748834045021389 / 2199023255552)"
proof -
  have "nearest_double (100002 / 80) = Fl (of_int 5497668090042778 * power_int 2 (- 42))"
  proof (rule nearest_double_pos [where b = "10"])
    show "power_int 2 (10) \<le> (100002 / 80 :: rat)"
      by (simp add: power_int_2_neg_numeral)
    show "(100002 / 80 :: rat) < power_int 2 (10 + 1)"
      by (simp add: power_int_2_neg_numeral)
    show "- 42 = max (10 - 52) (- 1074 :: int)" by simp
    show "round_half_even (100002 / 80 / power_int 2 (- 42)) = 5497668090042778"
      by (rule round_half_even_unique) (simp_all add: power_int_2_neg_numeral)
    show "of_int 5497668090042778 * power_int 2 (- 42) < (2 :: rat) ^ 1024"
      by (simp add: power_int_2_neg_numeral)
  qed
  then show ?thesis by (simp add: power_int_2_neg_numeral)
qed

lemma round_quotient:
  "round_half_even (2748834045021389 / 2199023255552 * 100) = 125003"
  by (rule round_half_even_unique) simp_all

lemma nearest_double_1250_03:
  "nearest_double (125003 / 100) = Fl (5497690080275333 / 4398046511104)"
proof -
  have "nearest_double (125003 / 100) = Fl (of_int 5497690080275333 * power_int 2 (- 42))"
  proof (rule nearest_double_pos [where b = "10"])
    show "power_int 2 (10) \<le> (125003 / 100 :: rat)"
      by (simp add: power_int_2_neg_numeral)
    show "(125003 / 100 :: rat) < power_int 2 (10 + 1)"
      by (simp add: power_int_2_neg_numeral)
    show "- 42 = max (10 - 52) (- 1074 :: int)" by simp
    show "round_half_even (125003 / 100 / power_int 2 (- 42)) = 5497690080275333"
      by (rule round_half_even_unique) (simp_all add: power_int_2_neg_numeral)
    show "of_int 5497690080275333 * power_int 2 (- 42) < (2 :: rat) ^ 1024"
      by (simp add: power_int_2_neg_numeral)
  qed
  then show ?thesis by (simp add: power_int_2_neg_numeral)
qed

lemma nearest_double_eighth:
  "nearest_double (25 / 200) = Fl (1 / 8)"
proof -
  have "nearest_double (25 / 200) = Fl (of_int 4503599627370496 * power_int 2 (- 55))"
  proof (rule nearest_double_pos [where b = "- 3"])
    show "power_int 2 (- 3) \<le> (25 / 200 :: rat)"
      by (simp add: power_int_2_neg_numeral)
    show "(25 / 200 :: rat) < power_int 2 (- 3 + 1)"
      by (simp add: power_int_2_neg_numeral)
    show "- 55 = max (- 3 - 52) (- 1074 :: int)" by simp
    show "round_half_even (25 / 200 / power_int 2 (- 55)) = 4503599627370496"
      by (rule round_half_even_unique) (simp_all add: power_int_2_neg_numeral)
    show "of_int 4503599627370496 * power_int 2 (- 55) < (2 :: rat) ^ 1024"
      by (simp add: power_int_2_neg_numeral)
  qed
  then show ?thesis by (simp add: power_int_2_neg_numeral)
qed

lemma round_eighth: "round_half_even (1 / 8 * 100) = 12"
  using round_half_even_tie [of "1 / 8 * 100" 12] by simp

lemma nearest_double_0_12:
  "nearest_double (12 / 100) = Fl (1080863910568919 / 9007199254740992)"
proof -
  have "nearest_double (12 / 100) = Fl (of_int 8646911284551352 * power_int 2 (- 56))"
  proof (rule nearest_double_pos [where b = "- 4"])
    show "power_int 2 (- 4) \<le> (12 / 100 :: rat)"
      by (simp add: power_int_2_neg_numeral)
    show "(12 / 100 :: rat) < power_int 2 (- 4 + 1)"
      by (simp add: power_int_2_neg_numeral)
    show "- 56 = max (- 4 - 52) (- 1074 :: int)" by simp
    show "round_half_even (12 / 100 / power_int 2 (- 56)) = 8646911284551352"
      by (rule round_half_even_unique) (simp_all add: power_int_2_neg_numeral)
    show "of_int 8646911284551352 * power_int 2 (- 56) < (2 :: rat) ^ 1024"
      by (simp add: power_int_2_neg_numeral)
  qed
  then show ?thesis by (simp add: power_int_2_neg_numeral)
qed

lemma float_truthy_Some: "float_truthy (Some x) \<longleftrightarrow> x \<noteq> Fl 0"
  by (cases x) simp_all

lemma py_truediv_defined:
  assumes "y \<noteq> Fl 0"
  shows "\<exists>q. py_truediv x y = Inr q"
proof (cases y)
  case (Fl v)
  with assms have "v \<noteq> 0" by simp
  with Fl show ?thesis by (cases x) simp_all
next
  case PosInf
  then show ?thesis by (cases x) simp_all
next
  case NegInf
  then show ?thesis by (cases x) simp_all
next
  case NaN
  then show ?thesis by (cases x) simp_all
qed

lemma price_per_m2_Some:
  assumes "x \<noteq> Fl 0" "y \<noteq> Fl 0" "py_truediv x y = Inr q"
  shows "price_per_m2 (Some x) (Some y) = Inr (Some (py_round2 q))"
  using assms by (simp add: price_per_m2_def float_truthy_Some)

lemma price_per_m2_null:
  "price_per_m2 p a = Inr None \<longleftrightarrow> p = None \<or> a = None \<or> p = Some (Fl 0) \<or> a = Some (Fl 0)"
proof (cases p)
  case None
  then show ?thesis by (simp add: price_per_m2_def)
next
  case p: (Some x)
  show ?thesis
  proof (cases a)
    case None
    then show ?thesis by (simp add: price_per_m2_def)
  next
    case a: (Some y)
    show ?thesis
    proof (cases "x = Fl 0 \<or> y = Fl 0")
      case True
      then have "\<not> (float_truthy (Some x) \<and> float_truthy (Some y))"
        by (simp add: float_truthy_Some)
      then have "price_per_m2 (Some x) (Some y) = Inr None"
        by (simp only: price_per_m2_def if_False)
      with True p a show ?thesis by simp
    next
      case False
      then have xy: "x \<noteq> Fl 0" "y \<noteq> Fl 0" by simp_all
      then obtain q where "py_truediv x y = Inr q" using py_truediv_defined by blast
      with xy have "price_per_m2 (Some x) (Some y) = Inr (Some (py_round2 q))"
        by (rule price_per_m2_Some)
      with p a xy show ?thesis by simp
    qed
  qed
qed

lemma price_per_m2_no_error: "price_per_m2 p a \<noteq> Inl e"
proof (cases "float_truthy p \<and> float_truthy a")
  case False
  then have "price_per_m2 p a = Inr None" by (simp only: price_per_m2_def if_False)
  then show ?thesis by simp
next
  case True
  then obtain x y where xy: "p = Some x" "a = Some y" by (cases p; cases a) simp_all
  with True have n: "x \<noteq> Fl 0" "y \<noteq> Fl 0" by (simp_all add: float_truthy_Some)
  then obtain q where "py_truediv x y = Inr q" using py_truediv_defined by blast
  with n have "price_per_m2 (Some x) (Some y) = Inr (Some (py_round2 q))"
    by (rule price_per_m2_Some)
  with xy show ?thesis by simp
qed

lemma price_per_m2_finite:
  assumes "u \<noteq> 0" "v \<noteq> 0"
  shows "price_per_m2 (Some (Fl u)) (Some (Fl v)) =
        (case nearest_double (u / v) of
           Fl q \<Rightarrow> Inr (Some (nearest_double (of_int (round_half_even (q * 100)) / 100)))
         | f \<Rightarrow> Inr (Some f))"
proof -
  have "py_truediv (Fl u) (Fl v) = Inr (nearest_double (u / v))"
    using assms(2) by simp
  with assms have "price_per_m2 (Some (Fl u)) (Some (Fl v)) =
      Inr (Some (py_round2 (nearest_double (u / v))))"
    by (intro price_per_m2_Some) simp_all
  then show ?thesis by (cases "nearest_double (u / v)") simp_all
qed

section \<open>Claims about the normalizers, the price and the coordinate note\<close>

text \<open>
  C4. The claim: when every comma-separated segment of the address is filtered away, the
  Address Normalizer returns "city, original-address" for a supplied city. The code: with
  an empty list of kept segments and a non-empty city, the city is inserted into the list
  first, so the result is the city alone and the branch \<open>city + ', ' + a\<close> is never
  reached.
\<close>

theorem all_filtered_returns_city:
  assumes "filtered_parts s = []" and "c \<noteq> []"
  shows "normalize_address_for_geocoding (PStr s) (PStr c) = Inr c"
  using assms by (simp add: normalize_address_for_geocoding_def)

theorem all_filtered_returns_city_witness:
  "normalize_address_for_geocoding (PStr [1062, 1040, 1054])
     (PStr [1052, 1086, 1089, 1082, 1074, 1072]) = Inr [1052, 1086, 1089, 1082, 1074, 1072] \<and>
   normalize_address_for_geocoding (PStr [1062, 1040, 1054])
     (PStr [1052, 1086, 1089, 1082, 1074, 1072]) \<noteq>
     Inr ([1052, 1086, 1089, 1082, 1074, 1072] @ asc '', '' @ [1062, 1040, 1054])"
  using all_filtered_returns_city [OF tsao_filtered, of "[1052, 1086, 1089, 1082, 1074, 1072]"]
  by simp

text \<open>
  C5, as the code has it. The derived price is null exactly when an operand is null or
  zero (a price of 0 is falsy, like a missing one), and the expression never raises: the
  guard keeps a zero divisor away. When both operands are present and non-zero it is
  \<open>round(price_total / area_m2, 2)\<close> in float arithmetic: for finite operands, the quotient
  rounded to the nearest double, that double rounded to two decimals, and the result
  rounded to the nearest double again.
\<close>

theorem price_per_m2_null_or_rounded:
  "(price_per_m2 p a = Inr None \<longleftrightarrow> p = None \<or> a = None \<or> p = Some (Fl 0) \<or> a = Some (Fl 0)) \<and>
   (\<forall>e. price_per_m2 p a \<noteq> Inl e) \<and>
   (\<forall>x y. p = Some x \<and> a = Some y \<and> x \<noteq> Fl 0 \<and> y \<noteq> Fl 0 \<longrightarrow>
      (\<exists>q. py_truediv x y = Inr q \<and> price_per_m2 p a = Inr (Some (py_round2 q)))) \<and>
   (\<forall>u v. p = Some (Fl u) \<and> a = Some (Fl v) \<and> u \<noteq> 0 \<and> v \<noteq> 0 \<longrightarrow>
      price_per_m2 p a =
        (case nearest_double (u / v) of
           Fl q \<Rightarrow> Inr (Some (nearest_double (of_int (round_half_even (q * 100)) / 100)))
         | f \<Rightarrow> Inr (Some f)))"
proof (intro conjI allI impI)
  show "price_per_m2 p a = Inr None \<longleftrightarrow>
      p = None \<or> a = None \<or> p = Some (Fl 0) \<or> a = Some (Fl 0)"
    by (rule price_per_m2_null)
  show "price_per_m2 p a \<noteq> Inl e" for e
    by (rule price_per_m2_no_error)
  show "\<exists>q. py_truediv x y = Inr q \<and> price_per_m2 p a = Inr (Some (py_round2 q))"
    if h: "p = Some x \<and> a = Some y \<and> x \<noteq> Fl 0 \<and> y \<noteq> Fl 0" for x y
  proof -
    from h obtain q where q: "py_truediv x y = Inr q" using py_truediv_defined by blast
    with h have "price_per_m2 (Some x) (Some y) = Inr (Some (py_round2 q))"
      by (intro price_per_m2_Some) simp_all
    with h q show ?thesis by simp
  qed
  show "price_per_m2 p a =
        (case nearest_double (u / v) of
           Fl q \<Rightarrow> Inr (Some (nearest_double (of_int (round_half_even (q * 100)) / 100)))
         | f \<Rightarrow> Inr (Some f))"
    if h: "p = Some (Fl u) \<and> a = Some (Fl v) \<and> u \<noteq> 0 \<and> v \<noteq> 0" for u v
    using h price_per_m2_finite [of u v] by simp
qed

theorem price_per_m2_null_or_rounded_witness:
  "price_per_m2 (Some (Fl 100002)) (Some (Fl 80)) = Inr (Some (nearest_double (125003 / 100))) \<and>
   nearest_double (100002 / 80) = Fl (2748834045021389 / 2199023255552) \<and>
   nearest_double (125003 / 100) = Fl (5497690080275333 / 4398046511104) \<and>
   price_per_m2 (Some (Fl 100002)) (Some (Fl 80)) \<noteq> Inr None \<and>
   price_per_m2 (Some (Fl 25)) (Some (Fl 200)) = Inr (Some (nearest_double (12 / 100))) \<and>
   nearest_double (12 / 100) = Fl (1080863910568919 / 9007199254740992)"
proof -
  note th = price_per_m2_null_or_rounded [of "Some (Fl 100002)" "Some (Fl 80)"]
  have c: "Some (Fl 100002) = Some (Fl 100002) \<and> Some (Fl 80) = Some (Fl 80) \<and>
      (100002 :: rat) \<noteq> 0 \<and> (80 :: rat) \<noteq> 0"
    by simp
  from th c have "price_per_m2 (Some (Fl 100002)) (Some (Fl 80)) =
        (case nearest_double (100002 / 80) of
           Fl q \<Rightarrow> Inr (Some (nearest_double (of_int (round_half_even (q * 100)) / 100)))
         | f \<Rightarrow> Inr (Some f))"
    by blast
  then have 1: "price_per_m2 (Some (Fl 100002)) (Some (Fl 80)) =
      Inr (Some (nearest_double (125003 / 100)))"
    unfolding nearest_double_quotient pyfloat.case round_quotient by simp
  from th have 2: "price_per_m2 (Some (Fl 100002)) (Some (Fl 80)) \<noteq> Inr None"
    by simp
  note tie = price_per_m2_null_or_rounded [of "Some (Fl 25)" "Some (Fl 200)"]
  have d: "Some (Fl 25) = Some (Fl 25) \<and> Some (Fl 200) = Some (Fl 200) \<and>
      (25 :: rat) \<noteq> 0 \<and> (200 :: rat) \<noteq> 0"
    by simp
  from tie d have "price_per_m2 (Some (Fl 25)) (Some (Fl 200)) =
        (case nearest_double (25 / 200) of
           Fl q \<Rightarrow> Inr (Some (nearest_double (of_int (round_half_even (q * 100)) / 100)))
         | f \<Rightarrow> Inr (Some f))"
    by blast
  then have 3: "price_per_m2 (Some (Fl 25)) (Some (Fl 200)) =
      Inr (Some (nearest_double (12 / 100)))"
    unfolding nearest_double_eighth pyfloat.case round_eighth by simp
  from 1 2 3 show ?thesis
    by (simp only: nearest_double_quotient nearest_double_1250_03 nearest_double_0_12 simp_thms)
qed

text \<open>C5 as stated fails: a present price of 0 with an area of 50 gives null, although
  the quotient is defined and rounds to 0.0.\<close>

theorem price_zero_counterexample:
  "price_per_m2 (Some (Fl 0)) (Some (Fl 50)) = Inr None \<and>
   py_truediv (Fl 0) (Fl 50) = Inr (Fl 0) \<and> py_round2 (Fl 0) = Fl 0"
proof -
  have "nearest_double 0 = Fl 0" by (simp add: nearest_double_def)
  moreover have "round_half_even 0 = 0" using round_half_even_int [of 0] by simp
  ultimately show ?thesis by (simp add: price_per_m2_def)
qed

text \<open>
  C9. Round trip of the coordinate note: for a latitude string \<open>L\<close> without a comma and a
  longitude string \<open>U\<close>, neither containing one of the markers \<open>lat = \<close> and \<open>lng = \<close>,
  the Zone Classifier's parse of the Record Store's note \<open>lat = L, lng = U\<close> gives back
  exactly \<open>L\<close> and \<open>U\<close>.
\<close>

theorem coordinate_note_roundtrip:
  assumes "44 \<notin> set L"
    and "\<not> py_in (asc ''lat = '') L" and "\<not> py_in (asc ''lng = '') L"
    and "\<not> py_in (asc ''lat = '') U" and "\<not> py_in (asc ''lng = '') U"
  shows "parse_lat (coord_note L U) = L \<and> parse_lng (coord_note L U) = U"
  using assms by (simp add: py_in_sublist parse_lat_note parse_lng_note)

theorem coordinate_note_roundtrip_witness:
  "parse_lat (coord_note (asc ''55.75'') (asc ''37.61'')) = asc ''55.75'' \<and>
   parse_lng (coord_note (asc ''55.75'') (asc ''37.61'')) = asc ''37.61''"
  by (rule coordinate_note_roundtrip) (simp_all add: py_in_def asc_def)

text \<open>
  C10. The Address Normalizer never raises on a non-string address: it returns the string
  rendering of the input, which is not empty (\<open>None\<close> gives the text "None"). So a row with
  no address_raw, no title and no coordinates is not skipped by the coordinate backfill:
  the geocoder is queried with the text "None".
\<close>

theorem address_normalizer_non_string:
  "(\<not> isinstance_str v \<longrightarrow>
      normalize_address_for_geocoding v c = Inr (py_str v) \<and> py_str v \<noteq> []) \<and>
   normalize_address_for_geocoding PNone c = Inr (asc ''None'') \<and>
   (address_raw r = PNone \<and> title r = PNone \<and> (lat r = None \<or> lng r = None) \<and>
    (truthy (city r) \<longrightarrow> isinstance_str (city r)) \<and>
    (\<forall>l. glim = Some l \<longrightarrow> updated st < l) \<longrightarrow>
      (\<exists>st' r'. ensure_row fmt lookup glim st r = Inr (st', r') \<and>
         queries st' = queries st @ [asc ''None'']))"
proof (intro conjI impI)
  assume "\<not> isinstance_str v"
  then show "normalize_address_for_geocoding v c = Inr (py_str v)"
    by (cases v) (simp_all add: normalize_address_for_geocoding_def)
next
  assume "\<not> isinstance_str v"
  then show "py_str v \<noteq> []" by (rule py_str_not_Nil)
next
  show "normalize_address_for_geocoding PNone c = Inr (asc ''None'')"
    by (simp add: normalize_address_for_geocoding_def)
next
  assume a: "address_raw r = PNone \<and> title r = PNone \<and> (lat r = None \<or> lng r = None) \<and>
    (truthy (city r) \<longrightarrow> isinstance_str (city r)) \<and>
    (\<forall>l. glim = Some l \<longrightarrow> updated st < l)"
  then have n: "normalize_address_for_geocoding (py_or (address_raw r) (title r)) (city r)
      = Inr (asc ''None'')"
    by (simp add: py_or_def normalize_address_for_geocoding_def)
  have ne: "asc ''None'' \<noteq> []" by (simp add: asc_def)
  from a have glim: "\<not> (case glim of None \<Rightarrow> False | Some l \<Rightarrow> l \<le> updated st)"
    by (cases glim) auto
  from a have g: "geocode_address lookup (asc ''None'') (city r)
      = Inr (lookup (asc ''None'') (city r))"
    by (auto simp: geocode_address_def)
  show "\<exists>st' r'. ensure_row fmt lookup glim st r = Inr (st', r') \<and>
         queries st' = queries st @ [asc ''None'']"
    using a n ne glim g
    by (cases "lookup (asc ''None'') (city r)")
      (auto simp: ensure_row_def split: option.splits)
qed

theorem address_normalizer_non_string_witness:
  "normalize_address_for_geocoding (PInt (- 7)) PNone = Inr (asc ''-7'') \<and>
   normalize_address_for_geocoding PNone PNone = Inr (asc ''None'') \<and>
   (\<exists>st' r'. ensure_row (\<lambda>x. []) (\<lambda>q c. None) None \<lparr>updated = 0, queries = []\<rparr>
        row_without_address = Inr (st', r') \<and>
      queries st' = [asc ''None''])"
  using address_normalizer_non_string [of "PInt (- 7)" PNone row_without_address None
      "\<lparr>updated = 0, queries = []\<rparr>" "\<lambda>x. []" "\<lambda>q c. None"]
  by (simp add: row_without_address_def int_str_def nat_digits.simps asc_def)

section \<open>Claims about the Zone Classifier\<close>

text \<open>
  C1. The claim: a row whose classification column holds a terminal zone value is neither
  looked up nor rewritten on a later run, the skip being decided on the column the
  classifier writes. The code: the skip is decided on column 2 (\<open>ws.cell(row_num, 2)\<close>),
  while the classification is written to column \<open>COLUMN_COLOR\<close> = 26. Whenever column 2
  holds no terminal value the row is looked up and column 26 rewritten, whatever column 26
  held; the row is skipped exactly when column 2 holds a terminal value.
\<close>

theorem skip_decision_reads_column_two:
  "(cell_value (sheet st) (r, COLUMN_COORDINATES) = PStr c \<and> c \<noteq> [] \<and>
    \<not> is_terminal (cell_value (sheet st) (r, 2)) \<longrightarrow>
      (\<exists>st'. process_row http r st = Inr st' \<and>
         calls st' = calls st @ [check_url c] \<and>
         cell_value (sheet st') (r, COLUMN_COLOR) =
           PStr (color_to_write (classify (fetch_page http (check_url c)))))) \<and>
   (is_terminal (cell_value (sheet st) (r, 2)) \<longrightarrow>
      (\<exists>st'. process_row http r st = Inr st' \<and> calls st' = calls st \<and>
         cell_value (sheet st') = cell_value (sheet st) \<and>
         cell_fill (sheet st') = cell_fill (sheet st)))"
  by (auto simp: process_row_lookup set_status_value dest: process_row_skip)

theorem skip_decision_reads_column_two_witness:
  "cell_value purple_row_sheet (2, COLUMN_COLOR) = PStr purple_zone \<and>
   (\<exists>st'. process_row green_service 2 \<lparr>sheet = purple_row_sheet, calls = []\<rparr> = Inr st' \<and>
      calls st' = [check_url (coord_note (asc ''55.75'') (asc ''37.61''))] \<and>
      cell_value (sheet st') (2, COLUMN_COLOR) = PStr green_zone)"
proof -
  have t: "\<not> is_terminal (PStr (asc ''311739319''))"
    by (simp add: is_terminal_def purple_zone_def pink_zone_def asc_def)
  have n: "coord_note (asc ''55.75'') (asc ''37.61'') \<noteq> []"
    by (simp add: coord_note_def asc_def)
  show ?thesis
    using skip_decision_reads_column_two [of "\<lparr>sheet = purple_row_sheet, calls = []\<rparr>" 2
        "coord_note (asc ''55.75'') (asc ''37.61'')" green_service] t n
    by (simp add: purple_row_sheet_def COLUMN_COORDINATES_def COLUMN_COLOR_def
        green_service_classify)
qed

text \<open>
  C7. For a row that triggers a lookup, the written classification is a function of the
  service response and never an exception:
  \<^item> it is one of the six values;
  \<^item> on a response of the documented shape it is the specification's table: the two
    descriptions, then the priority-zone code before the general zone code, else
    not-applicable;
  \<^item> on every response whose parsing does not raise it is that table applied to the
    description, the priority-zone code and the zone code found in the response, and
    it is not-applicable when the parsing raises;
  \<^item> the request is attempted up to five times: the answer of the first attempt that
    does not fail is the response (a nothing-found answer counts as no response), and
    when all five attempts fail there is no response and the row is written
    not-applicable;
  \<^item> the run goes through all its rows: on a sheet whose coordinate cells are empty or
    strings it ends without an exception, requests the URL of every row that triggers a
    lookup, in order, writes for each of them the classification of its own response to
    the classification column, and leaves every other cell as it was.
\<close>

theorem classification_total:
  "color_to_write (classify resp)
     \<in> set [red_zone, occupied_status, pink_zone, purple_zone, green_zone, NA] \<and>
   color_to_write (classify (Some (zone_response d p z))) = spec_classification d p z \<and>
   ((\<forall>e. parse_response j \<noteq> Inl e) \<longrightarrow>
      color_to_write (classify (Some j)) = response_classification j) \<and>
   (\<forall>e. parse_response j = Inl e \<longrightarrow> color_to_write (classify (Some j)) = NA) \<and>
   color_to_write (classify None) = NA \<and>
   ((\<forall>k. 1 \<le> k \<and> k \<le> 5 \<longrightarrow> attempt_fails http u k) \<longrightarrow> fetch_page http u = None) \<and>
   (\<forall>k a b. 1 \<le> k \<and> k \<le> 5 \<and> (\<forall>i. 1 \<le> i \<and> i < k \<longrightarrow> attempt_fails http u i) \<and>
      http u k = Some a \<and> json_contains nothing_found a = Inr b \<longrightarrow>
      fetch_page http u = (if b then None else Some a)) \<and>
   ((\<forall>r \<in> set rows. text_or_blank (sheet st) r) \<longrightarrow>
      (\<exists>st'. main_loop http rows st = Inr st' \<and>
         calls st' = calls st @
           map (\<lambda>r. check_url (row_coordinates (sheet st) r))
             (filter (triggers_lookup (sheet st)) rows) \<and>
         (\<forall>r c. cell_value (sheet st') (r, c) =
            (if c = COLUMN_COLOR \<and> r \<in> set rows \<and> triggers_lookup (sheet st) r
             then PStr (color_to_write
                    (classify (fetch_page http (check_url (row_coordinates (sheet st) r)))))
             else cell_value (sheet st) (r, c)))))"
proof (intro conjI allI impI)
  show "color_to_write (classify resp)
     \<in> set [red_zone, occupied_status, pink_zone, purple_zone, green_zone, NA]"
    by (rule classify_range)
  show "color_to_write (classify (Some (zone_response d p z))) = spec_classification d p z"
    by (rule classify_zone_response)
  show "color_to_write (classify (Some j)) = response_classification j"
    if "\<forall>e. parse_response j \<noteq> Inl e"
    using that by (rule classify_table)
  show "color_to_write (classify (Some j)) = NA" if "parse_response j = Inl e" for e
    using that by (simp add: classify_def)
  show "color_to_write (classify None) = NA"
    by (simp add: classify_def)
  show "fetch_page http u = None" if "\<forall>k. 1 \<le> k \<and> k \<le> 5 \<longrightarrow> attempt_fails http u k"
    using that by (rule fetch_page_none)
  show "fetch_page http u = (if b then None else Some a)"
    if "1 \<le> k \<and> k \<le> 5 \<and> (\<forall>i. 1 \<le> i \<and> i < k \<longrightarrow> attempt_fails http u i) \<and>
      http u k = Some a \<and> json_contains nothing_found a = Inr b" for k a b
    using that by (intro fetch_page_answer [of k]) simp_all
  show "\<exists>st'. main_loop http rows st = Inr st' \<and>
         calls st' = calls st @
           map (\<lambda>r. check_url (row_coordinates (sheet st) r))
             (filter (triggers_lookup (sheet st)) rows) \<and>
         (\<forall>r c. cell_value (sheet st') (r, c) =
            (if c = COLUMN_COLOR \<and> r \<in> set rows \<and> triggers_lookup (sheet st) r
             then PStr (color_to_write
                    (classify (fetch_page http (check_url (row_coordinates (sheet st) r)))))
             else cell_value (sheet st) (r, c)))"
    if "\<forall>r \<in> set rows. text_or_blank (sheet st) r"
    using main_loop_run [OF that, of http] unfolding written_classification_def .
qed

theorem classification_total_witness:
  "color_to_write (classify (Some null_priority_response)) = green_zone \<and>
   color_to_write (classify (Some (JArr [JNull]))) = NA \<and>
   fetch_page flaky_service (check_url (coord_note (asc ''55.75'') (asc ''37.61''))) = None \<and>
   fetch_page flaky_service (check_url (coord_note (asc ''59.93'') (asc ''30.31''))) =
     Some pink_response \<and>
   (\<exists>st'. main_loop flaky_service [2, 3] \<lparr>sheet = two_row_sheet, calls = []\<rparr> = Inr st' \<and>
      calls st' = [check_url (coord_note (asc ''55.75'') (asc ''37.61'')),
                   check_url (coord_note (asc ''59.93'') (asc ''30.31''))] \<and>
      cell_value (sheet st') (2, COLUMN_COLOR) = PStr NA \<and>
      cell_value (sheet st') (3, COLUMN_COLOR) = PStr pink_zone \<and>
      cell_value (sheet st') (3, 2) = PStr (asc ''311739320''))"
proof -
  let ?u2 = "check_url (coord_note (asc ''55.75'') (asc ''37.61''))"
  let ?u3 = "check_url (coord_note (asc ''59.93'') (asc ''30.31''))"
  let ?st = "\<lparr>sheet = two_row_sheet, calls = []\<rparr>"
  note a = classification_total [of None "[]" None None null_priority_response
      flaky_service ?u2 "[2, 3]" ?st]
  note b = classification_total [of None "[]" None None "JArr [JNull]"
      flaky_service ?u3 "[2, 3]" ?st]
  have p: "\<forall>e. parse_response null_priority_response \<noteq> Inl e"
    by (simp add: null_priority_parse)
  from a p have "color_to_write (classify (Some null_priority_response)) =
      response_classification null_priority_response"
    by blast
  then have 1: "color_to_write (classify (Some null_priority_response)) = green_zone"
    by (simp only: null_priority_parse)
  have "parse_response (JArr [JNull]) = Inl AttributeError"
    by (simp add: parse_response_def bind_err_def)
  with b have 2: "color_to_write (classify (Some (JArr [JNull]))) = NA"
    by blast
  have "\<forall>k. 1 \<le> k \<and> k \<le> 5 \<longrightarrow> attempt_fails flaky_service ?u2 k"
    by (simp add: flaky_service_attempts)
  with a have 3: "fetch_page flaky_service ?u2 = None"
    by blast
  have "1 \<le> (3 :: nat) \<and> (3 :: nat) \<le> 5 \<and>
      (\<forall>i. 1 \<le> i \<and> i < 3 \<longrightarrow> attempt_fails flaky_service ?u3 i) \<and>
      flaky_service ?u3 3 = Some pink_response \<and>
      json_contains nothing_found pink_response = Inr False"
    by (simp add: flaky_service_attempts pink_response_answer)
  with b have "fetch_page flaky_service ?u3 = (if False then None else Some pink_response)"
    by blast
  then have 4: "fetch_page flaky_service ?u3 = Some pink_response"
    by simp
  have "\<forall>r \<in> set [2, 3]. text_or_blank (sheet ?st) r"
    by (simp add: two_row_sheet_rows)
  with a obtain st' where m: "main_loop flaky_service [2, 3] ?st = Inr st'"
    and c: "calls st' = calls ?st @
           map (\<lambda>r. check_url (row_coordinates (sheet ?st) r))
             (filter (triggers_lookup (sheet ?st)) [2, 3])"
    and v: "\<forall>r c. cell_value (sheet st') (r, c) =
            (if c = COLUMN_COLOR \<and> r \<in> set [2, 3] \<and> triggers_lookup (sheet ?st) r
             then PStr (color_to_write
                    (classify (fetch_page flaky_service (check_url (row_coordinates (sheet ?st) r)))))
             else cell_value (sheet ?st) (r, c))"
    by blast
  from c have 5: "calls st' = [?u2, ?u3]"
    by (simp add: two_row_sheet_rows)
  from v [rule_format, of 2 COLUMN_COLOR] have 6: "cell_value (sheet st') (2, COLUMN_COLOR) = PStr NA"
    by (simp add: two_row_sheet_rows 3 classify_def)
  from v [rule_format, of 3 COLUMN_COLOR]
  have 7: "cell_value (sheet st') (3, COLUMN_COLOR) = PStr pink_zone"
    by (simp add: two_row_sheet_rows 4 pink_response_answer)
  from v [rule_format, of 3 2] have 8: "cell_value (sheet st') (3, 2) = PStr (asc ''311739320'')"
    by (simp add: COLUMN_COLOR_def two_row_sheet_def)
  from 1 2 3 4 m 5 6 7 8 show ?thesis by blast
qed

section \<open>Claims about the Record Store\<close>

text \<open>
  C2, as the code has it. After the URLs are normalized, the loop keeps, in input order,
  the first row of each composite key (source, external\_id, normalized url): the keys of
  the kept rows are distinct, every key of the input is kept, the kept rows are a
  subsequence of the input, and each kept row is the first of the input with its key. Of
  two rows only the first survives when all three values agree, and both survive
  otherwise.
\<close>

theorem dedup_keeps_first_of_composite_key:
  "distinct (map dedup_key (deduplicate lib rs)) \<and>
   dedup_key ` set (deduplicate lib rs) = dedup_key ` set (normalize_urls lib rs) \<and>
   subseq (deduplicate lib rs) (normalize_urls lib rs) \<and>
   (\<forall>r \<in> set (deduplicate lib rs).
      find (\<lambda>x. dedup_key x = dedup_key r) (normalize_urls lib rs) = Some r) \<and>
   (normalize_urls lib [r1, r2] = [n1, n2] \<longrightarrow>
      deduplicate lib [r1, r2] = (if dedup_key n1 = dedup_key n2 then [n1] else [n1, n2]))"
proof (intro conjI ballI impI)
  show "distinct (map dedup_key (deduplicate lib rs))"
    by (simp add: deduplicate_def dedup_loop_distinct)
  show "dedup_key ` set (deduplicate lib rs) = dedup_key ` set (normalize_urls lib rs)"
    by (simp add: deduplicate_def dedup_loop_keys)
  show "subseq (deduplicate lib rs) (normalize_urls lib rs)"
    by (simp add: deduplicate_def dedup_loop_subseq)
  show "find (\<lambda>x. dedup_key x = dedup_key r) (normalize_urls lib rs) = Some r"
    if "r \<in> set (deduplicate lib rs)" for r
    using that by (simp add: deduplicate_def dedup_loop_first)
  show "deduplicate lib [r1, r2] = (if dedup_key n1 = dedup_key n2 then [n1] else [n1, n2])"
    if "normalize_urls lib [r1, r2] = [n1, n2]"
    using that by (simp add: deduplicate_def)
qed

theorem dedup_keeps_first_of_composite_key_witness:
  "deduplicate lib0 [office_row, office_row_again] =
     [office_row\<lparr>url := PStr (asc ''https://cian.ru/rent/office/123'')\<rparr>] \<and>
   distinct (map dedup_key (deduplicate lib0 [office_row, office_row_again])) \<and>
   subseq (deduplicate lib0 [office_row, office_row_again])
     (normalize_urls lib0 [office_row, office_row_again])"
  using dedup_keeps_first_of_composite_key [of lib0 "[office_row, office_row_again]"
      office_row office_row_again
      "office_row\<lparr>url := PStr (asc ''https://cian.ru/rent/office/123'')\<rparr>"
      "office_row\<lparr>url := PStr (asc ''https://cian.ru/rent/office/123'')\<rparr>"]
  by (simp add: example_rows_normalized)

text \<open>C2 as stated fails: two rows with the same source and external id, which the
  specification's key identifies, both survive when their normalized URLs differ.\<close>

theorem dedup_same_id_counterexample:
  "spec_key office_row = spec_key commercial_row \<and>
   deduplicate lib0 [office_row, commercial_row] =
     [office_row\<lparr>url := PStr (asc ''https://cian.ru/rent/office/123'')\<rparr>,
      office_row\<lparr>url := PStr (asc ''https://cian.ru/rent/commercial/123'')\<rparr>]"
proof -
  have "spec_key office_row = spec_key commercial_row"
    by (simp add: spec_key_def office_row_def commercial_row_def asc_def)
  moreover have "dedup_key (office_row\<lparr>url := PStr (asc ''https://cian.ru/rent/office/123'')\<rparr>)
      \<noteq> dedup_key (office_row\<lparr>url := PStr (asc ''https://cian.ru/rent/commercial/123'')\<rparr>)"
    by (simp add: dedup_key_def asc_def)
  ultimately show ?thesis
    unfolding deduplicate_def example_rows_normalized by simp
qed

section \<open>Claims about the URL Normalizer\<close>

text \<open>
  C3, as the code has it. On every URL \<open>https://host path tail\<close> (a host of printable
  ASCII characters other than \<open>/ ? # [ ]\<close> that is not empty and not just \<open>www.\<close>, a path
  that is empty or starts with a slash and has no white space, semicolon, question mark
  or hash, a tail that is empty or starts a query or a fragment) the normalizer returns
  \<open>https://\<close>, the lower-cased host without one leading \<open>www.\<close>, and the path without its
  trailing slashes; query and fragment are gone. Normalizing the result again gives the
  same string exactly when the host, after that one strip, does not begin with \<open>www.\<close>
  again. This holds for each release of the library.
\<close>

theorem normalize_url_https:
  assumes "list_all host_char host" "plain_path path" "url_tail tail"
    and "strip_www (py_lower host) \<noteq> []"
  shows "normalize_url lib (PStr (https_url host path tail)) =
       https_url (strip_www (py_lower host)) (py_rstrip (\<lambda>c. c = 47) path) [] \<and>
     (normalize_url lib (PStr (normalize_url lib (PStr (https_url host path tail)))) =
        normalize_url lib (PStr (https_url host path tail))
      \<longleftrightarrow> \<not> prefix (asc ''www.'') (strip_www (py_lower host)))"
proof -
  let ?h = "strip_www (py_lower host)" and ?p = "py_rstrip (\<lambda>c. c = 47) path"
  have 1: "normalize_url lib (PStr (https_url host path tail)) = https_url ?h ?p []"
    by (rule normalize_https_plain [OF assms])
  have hh: "list_all host_char ?h" by (rule host_char_strip_www [OF assms(1)])
  have pp: "plain_path ?p" by (rule plain_path_rstrip [OF assms(2)])
  have tt: "url_tail []" by (simp add: url_tail_def)
  have "normalize_url lib (PStr (https_url ?h ?p [])) =
      urlunparse lib (asc ''https'') (strip_www (py_lower ?h)) (py_rstrip (\<lambda>c. c = 47) ?p)"
    by (rule normalize_https_unparse [OF hh pp tt])
  then have 2: "normalize_url lib (PStr (https_url ?h ?p [])) =
      urlunparse lib (asc ''https'') (strip_www ?h) ?p"
    by (simp add: py_lower_strip_www py_rstrip_idem)
  show ?thesis
  proof (cases "strip_www ?h = []")
    case False
    have "urlunparse lib (asc ''https'') (strip_www ?h) ?p = https_url (strip_www ?h) ?p []"
      unfolding https_url_append by (rule urlunparse_netloc [OF https_scheme(1) False pp])
    moreover have "https_url (strip_www ?h) ?p [] = https_url ?h ?p [] \<longleftrightarrow> strip_www ?h = ?h"
      by (simp add: https_url_def)
    ultimately show ?thesis using 1 2 by (simp add: strip_www_fixed)
  next
    case True
    with assms(4) have "strip_www ?h \<noteq> ?h" by simp
    then have w: "prefix (asc ''www.'') ?h" by (simp add: strip_www_fixed)
    have "length (urlunparse lib (asc ''https'') [] ?p) \<le> 8 + length ?p"
      using urlunparse_no_netloc [OF https_scheme(1) pp, of lib] by (auto simp: asc_def)
    moreover have "length (https_url ?h ?p []) = 8 + length ?h + length ?p"
      by (simp add: https_url_def asc_def)
    moreover have "0 < length ?h" using assms(4) by simp
    ultimately have "urlunparse lib (asc ''https'') [] ?p \<noteq> https_url ?h ?p []"
      by (metis add_less_cancel_right less_add_same_cancel1 not_le)
    with 1 2 True w show ?thesis by simp
  qed
qed

theorem normalize_url_https_witness:
  "normalize_url lib0 (PStr (asc ''https://WWW.Example.com/a/b/?x=1#y'')) =
     asc ''https://example.com/a/b'' \<and>
   normalize_url lib0 (PStr (asc ''https://example.com/a/b'')) = asc ''https://example.com/a/b'' \<and>
   normalize_url lib0 (PStr (normalize_url lib0 (PStr (asc ''https://WWW.Example.com/a/b/?x=1#y''))))
     = normalize_url lib0 (PStr (asc ''https://WWW.Example.com/a/b/?x=1#y''))"
proof -
  have a: "asc ''https://WWW.Example.com/a/b/?x=1#y'' =
      https_url (asc ''WWW.Example.com'') (asc ''/a/b/'') (asc ''?x=1#y'')"
    and b: "asc ''https://example.com/a/b'' = https_url (asc ''example.com'') (asc ''/a/b'') []"
    by (simp_all add: https_url_def asc_def)
  have ha: "list_all host_char (asc ''WWW.Example.com'')" "plain_path (asc ''/a/b/'')"
      "url_tail (asc ''?x=1#y'')"
    and hb: "list_all host_char (asc ''example.com'')" "plain_path (asc ''/a/b'')" "url_tail []"
    by (simp_all add: url_eval)
  have la: "strip_www (py_lower (asc ''WWW.Example.com'')) = asc ''example.com''"
    and lb: "strip_www (py_lower (asc ''example.com'')) = asc ''example.com''"
    and pa: "py_rstrip (\<lambda>c. c = 47) (asc ''/a/b/'') = asc ''/a/b''"
    and pb: "py_rstrip (\<lambda>c. c = 47) (asc ''/a/b'') = asc ''/a/b''"
    and nw: "\<not> prefix (asc ''www.'') (asc ''example.com'')"
    by (simp_all add: url_eval)
  have na: "strip_www (py_lower (asc ''WWW.Example.com'')) \<noteq> []"
    and nb: "strip_www (py_lower (asc ''example.com'')) \<noteq> []"
    unfolding la lb by (simp_all add: asc_def)
  show ?thesis
    using normalize_url_https [OF ha na, of lib0] normalize_url_https [OF hb nb, of lib0]
    unfolding a b la lb pa pb
    using nw by (simp add: https_url_def asc_def)
qed

text \<open>C3 as stated fails: the normalizer is not idempotent on a host that begins with
  \<open>www.www.\<close>, and the two URLs of the claim, one with scheme \<open>http\<close>, are not normalized
  to the same string (the scheme is kept by the branch that parses the URL).\<close>

theorem normalize_url_counterexample:
  "normalize_url lib0 (PStr (normalize_url lib0 (PStr (asc ''https://www.www.example.com''))))
     \<noteq> normalize_url lib0 (PStr (asc ''https://www.www.example.com'')) \<and>
   normalize_url lib0 (PStr (asc ''http://WWW.Example.com/a/b/?x=1#y''))
     \<noteq> normalize_url lib0 (PStr (asc ''https://example.com/a/b''))"
proof -
  have 1: "normalize_url lib0 (PStr (asc ''https://www.www.example.com'')) =
      asc ''https://www.example.com''"
    using normalize_https_plain [of "asc ''www.www.example.com''" "[]" "[]" lib0]
    by (simp add: url_eval https_url_def)
  have 2: "normalize_url lib0 (PStr (asc ''https://www.example.com'')) =
      asc ''https://example.com''"
    using normalize_https_plain [of "asc ''www.example.com''" "[]" "[]" lib0]
    by (simp add: url_eval https_url_def)
  have 3: "normalize_url lib0 (PStr (asc ''http://WWW.Example.com/a/b/?x=1#y'')) =
      asc ''http://example.com/a/b''"
    using normalize_url_plain [of "asc ''http''" "asc ''WWW.Example.com''" "asc ''/a/b/''"
        "asc ''?x=1#y''" lib0]
    by (simp add: url_eval)
  have 4: "normalize_url lib0 (PStr (asc ''https://example.com/a/b'')) =
      asc ''https://example.com/a/b''"
    using normalize_https_plain [of "asc ''example.com''" "asc ''/a/b''" "[]" lib0]
    by (simp add: url_eval https_url_def)
  show ?thesis
    unfolding 1 2 3 4 by (simp add: asc_def)
qed

section \<open>Claims about the Coordinate Resolver\<close>

text \<open>
  C6, as the code has it. When some JSON-LD script offers a pair (a geo block whose
  latitude and longitude are both truthy and accepted by \<open>float\<close>), the resolver returns
  the pair of the first such script, whatever the body text holds. The inline pattern is
  consulted only when no script offers a pair: its groups then give the coordinates, and
  without a match the longitude stays unset. A script that offers no pair (unparsable,
  not an object, no geo object, a coordinate missing, falsy or not a number) is passed
  over without an exception.
\<close>

theorem structured_geo_block_wins:
  "(first_geo_pair fs (ld_scripts pg) = Some (x, y) \<longrightarrow>
      resolve_coordinates fs pg = Inr (Some x, Some y)) \<and>
   (first_geo_pair fs (ld_scripts pg) = None \<and> coord_search (page_text pg) = Some (g1, g2) \<and>
    fs g1 = Some a \<and> fs g2 = Some b \<longrightarrow>
      resolve_coordinates fs pg = Inr (Some a, Some b)) \<and>
   (first_geo_pair fs (ld_scripts pg) = None \<and> coord_search (page_text pg) = None \<longrightarrow>
      (\<exists>la. resolve_coordinates fs pg = Inr (la, None))) \<and>
   (geo_pair fs s = None \<longrightarrow>
      first_geo_pair fs (s # ld_scripts pg) = first_geo_pair fs (ld_scripts pg))"
proof (intro conjI impI)
  assume "first_geo_pair fs (ld_scripts pg) = Some (x, y)"
  then have "scan_scripts fs (ld_scripts pg) (None, None) = (Some x, Some y)"
    by (rule scan_scripts_first)
  then show "resolve_coordinates fs pg = Inr (Some x, Some y)"
    by (simp add: resolve_coordinates_def)
next
  assume a: "first_geo_pair fs (ld_scripts pg) = None \<and>
      coord_search (page_text pg) = Some (g1, g2) \<and> fs g1 = Some a \<and> fs g2 = Some b"
  then have "snd (scan_scripts fs (ld_scripts pg) (None, None)) = None"
    by (intro scan_scripts_none) simp
  then obtain la where "scan_scripts fs (ld_scripts pg) (None, None) = (la, None)"
    by (cases "scan_scripts fs (ld_scripts pg) (None, None)") auto
  with a show "resolve_coordinates fs pg = Inr (Some a, Some b)"
    by (cases la) (simp_all add: resolve_coordinates_def)
next
  assume a: "first_geo_pair fs (ld_scripts pg) = None \<and> coord_search (page_text pg) = None"
  then have "snd (scan_scripts fs (ld_scripts pg) (None, None)) = None"
    by (intro scan_scripts_none) simp
  then obtain la where "scan_scripts fs (ld_scripts pg) (None, None) = (la, None)"
    by (cases "scan_scripts fs (ld_scripts pg) (None, None)") auto
  with a show "\<exists>la. resolve_coordinates fs pg = Inr (la, None)"
    by (cases la) (simp_all add: resolve_coordinates_def)
next
  assume "geo_pair fs s = None"
  then show "first_geo_pair fs (s # ld_scripts pg) = first_geo_pair fs (ld_scripts pg)"
    by simp
qed

theorem structured_geo_block_wins_witness:
  "resolve_coordinates decimal_float moscow_page = Inr (Some (223 / 4), Some (3761 / 100)) \<and>
   coord_search (page_text moscow_page) = Some (asc ''55.5'', asc ''37.5'') \<and>
   resolve_coordinates decimal_float (moscow_page\<lparr>ld_scripts := [None]\<rparr>)
     = Inr (Some (111 / 2), Some (75 / 2))"
proof -
  have 1: "first_geo_pair decimal_float (ld_scripts moscow_page) = Some (223 / 4, 3761 / 100)"
    by (simp add: moscow_page_def geo_pair_def [of _ None] geo_script_pair)
  have 2: "first_geo_pair decimal_float (ld_scripts (moscow_page\<lparr>ld_scripts := [None]\<rparr>)) = None"
    by (simp add: geo_pair_def)
  have 3: "coord_search (page_text (moscow_page\<lparr>ld_scripts := [None]\<rparr>))
      = Some (asc ''55.5'', asc ''37.5'')"
    by (simp add: moscow_page_def page_body_search)
  have 4: "coord_search (page_text moscow_page) = Some (asc ''55.5'', asc ''37.5'')"
    by (simp add: moscow_page_def page_body_search)
  show ?thesis
    using structured_geo_block_wins [of decimal_float moscow_page "223 / 4" "3761 / 100"]
      structured_geo_block_wins [of decimal_float "moscow_page\<lparr>ld_scripts := [None]\<rparr>" _ _
        "asc ''55.5''" "asc ''37.5''" "111 / 2" "75 / 2"]
      1 2 3 4 decimal_examples
    by simp
qed

text \<open>C6 as stated fails: a page whose geo block is the point (0, 10) on the equator and
  whose body holds the inline coordinates (55.5, 37.5) first. The zero latitude is falsy,
  the block offers no pair, and the inline pattern's coordinates are returned.\<close>

theorem geo_block_on_equator_counterexample:
  "ld_scripts equator_page = [Some (geo_script 0 10)] \<and>
   resolve_coordinates decimal_float equator_page = Inr (Some (111 / 2), Some (75 / 2))"
proof -
  have "scan_scripts decimal_float (ld_scripts equator_page) (None, None) = (None, None)"
    by (simp add: equator_page_def geo_entries_def geo_script_def dict_get_def asc_def)
  moreover have "coord_search (page_text equator_page) = Some (asc ''55.5'', asc ''37.5'')"
    by (simp add: equator_page_def page_body_search)
  ultimately show ?thesis
    by (simp add: resolve_coordinates_def decimal_examples equator_page_def)
qed

section \<open>Claims about the Source Scrapers\<close>

text \<open>
  C8. The two scrapers have the same control structure: on every site and for every number
  of pages they produce the same trace, and the handling of one link is the same. For the
  parameters of that structure:
  \<^item> a link is requested at most \<open>ITEM_RETRIES = 3\<close> times, with attempts 1, 2, 3 in order,
    and the pauses after refused attempts are \<open>min (2 ^ attempt) 8\<close>, that is 2, 4, 8 (the
    random part of the sleep is not modelled); when all three attempts answer 403 or 429
    there are exactly three requests and the three pauses, and when the first attempt
    succeeds there is one request and no pause;
  \<^item> every link requested for a page is among the first 40 of that page's links without
    duplicates;
  \<^item> the pages requested are 1, 2, ... in order, up to \<open>pages\<close>; after a requested page
    that is not the last one the next page is not requested exactly when the page answered
    403 or 429, or its processing raised, or it and the two pages before it had no link.
    So three consecutive pages without links stop the pagination, fewer do not, and a
    page with links in between starts the count again.
\<close>

theorem scrapers_share_control_structure:
  "scrape_avito w pages = scrape_cian w pages \<and>
   (\<forall>p l. avito_link w p l = cian_link w p l \<and>
      prefix (item_requests (cian_link w p l)) [(p, l, 1), (p, l, 2), (p, l, 3)] \<and>
      prefix (backoffs (cian_link w p l)) [min (2 ^ 1) 8, min (2 ^ 2) 8, min (2 ^ 3) 8] \<and>
      ((\<forall>k. 1 \<le> k \<and> k \<le> ITEM_RETRIES \<longrightarrow> get_item w p l k = ItemBlocked) \<longrightarrow>
         item_requests (cian_link w p l) = [(p, l, 1), (p, l, 2), (p, l, 3)] \<and>
         backoffs (cian_link w p l) = [2, 4, 8]) \<and>
      (\<forall>body. get_item w p l 1 = ItemOk body \<longrightarrow>
         item_requests (cian_link w p l) = [(p, l, 1)] \<and> backoffs (cian_link w p l) = [])) \<and>
   (\<forall>q l k. (q, l, k) \<in> set (item_requests (scrape_cian w pages)) \<longrightarrow>
      l \<in> set (take 40 (page_links w q)) \<and> 1 \<le> k \<and> k \<le> ITEM_RETRIES) \<and>
   prefix (pages_requested (scrape_cian w pages)) [1 ..< pages + 1] \<and>
   (\<forall>q. q \<in> set (pages_requested (scrape_cian w pages)) \<and> q < pages \<longrightarrow>
      (Suc q \<notin> set (pages_requested (scrape_cian w pages)) \<longleftrightarrow>
         get_page w q = PageBlocked \<or> get_page w q = PageFailed \<or>
         (3 \<le> q \<and> empty_page w (q - 2) \<and> empty_page w (q - 1) \<and> empty_page w q)))"
proof (intro conjI allI impI)
  show "scrape_avito w pages = scrape_cian w pages"
    by (simp add: scrape_avito_def scrape_cian_def pages_same)
next
  fix p l
  show "avito_link w p l = cian_link w p l" by (simp add: link_same)
  show "prefix (item_requests (cian_link w p l)) [(p, l, 1), (p, l, 2), (p, l, 3)]"
    using link_trace [of w p l] by simp
  show "prefix (backoffs (cian_link w p l)) [min (2 ^ 1) 8, min (2 ^ 2) 8, min (2 ^ 3) 8]"
    using link_trace [of w p l] by simp
  {
    assume "\<forall>k. 1 \<le> k \<and> k \<le> ITEM_RETRIES \<longrightarrow> get_item w p l k = ItemBlocked"
    then have b: "cian_link w p l =
      [Pause, GetItem p l 1, Backoff 2, GetItem p l 2, Backoff 4, GetItem p l 3, Backoff 8]"
      unfolding ITEM_RETRIES_def by (rule link_all_blocked)
    show "item_requests (cian_link w p l) = [(p, l, 1), (p, l, 2), (p, l, 3)]"
      unfolding b by simp
    show "backoffs (cian_link w p l) = [2, 4, 8]"
      unfolding b by simp
  }
  {
    fix body assume ok: "get_item w p l 1 = ItemOk body"
    show "item_requests (cian_link w p l) = [(p, l, 1)]"
      using link_first_ok [OF ok] by simp
    show "backoffs (cian_link w p l) = []"
      using link_first_ok [OF ok] by simp
  }
next
  fix q l k
  assume "(q, l, k) \<in> set (item_requests (scrape_cian w pages))"
  then have a: "l \<in> set (take 40 (page_links w q)) \<and> 1 \<le> k \<and> k \<le> 3"
    unfolding scrape_cian_def by (rule pages_items)
  from a show "l \<in> set (take 40 (page_links w q))" by simp
  from a show "1 \<le> k" by simp
  from a show "k \<le> ITEM_RETRIES" by (simp add: ITEM_RETRIES_def)
next
  show "prefix (pages_requested (scrape_cian w pages)) [1 ..< pages + 1]"
    using pages_requested_prefix [of w 1 pages 0] by (simp add: scrape_cian_def)
next
  fix q
  assume a: "q \<in> set (pages_requested (scrape_cian w pages)) \<and> q < pages"
  then have q1: "1 \<le> q" unfolding scrape_cian_def by (auto dest: pages_range)
  show "Suc q \<notin> set (pages_requested (scrape_cian w pages)) \<longleftrightarrow>
         get_page w q = PageBlocked \<or> get_page w q = PageFailed \<or>
         (3 \<le> q \<and> empty_page w (q - 2) \<and> empty_page w (q - 1) \<and> empty_page w q)"
  proof
    assume n: "Suc q \<notin> set (pages_requested (scrape_cian w pages))"
    have "get_page w q = PageBlocked \<or> get_page w q = PageFailed \<or>
         (3 \<le> q \<and> empty_page w (q - 2) \<and> empty_page w (q - 1) \<and> empty_page w q)"
    proof (rule pages_stop_reason [of 0 1 w q pages])
      show "q \<in> set (pages_requested (cian_pages w 1 pages 0))"
        using a by (simp add: scrape_cian_def)
      show "Suc q < 1 + pages" using a by simp
      show "Suc q \<notin> set (pages_requested (cian_pages w 1 pages 0))"
        using n by (simp add: scrape_cian_def)
    qed simp_all
    then show "get_page w q = PageBlocked \<or> get_page w q = PageFailed \<or>
         (3 \<le> q \<and> empty_page w (q - 2) \<and> empty_page w (q - 1) \<and> empty_page w q)" .
  next
    assume r: "get_page w q = PageBlocked \<or> get_page w q = PageFailed \<or>
         (3 \<le> q \<and> empty_page w (q - 2) \<and> empty_page w (q - 1) \<and> empty_page w q)"
    show "Suc q \<notin> set (pages_requested (scrape_cian w pages))"
    proof
      assume s: "Suc q \<in> set (pages_requested (scrape_cian w pages))"
      from r consider "get_page w q = PageBlocked \<or> get_page w q = PageFailed"
        | "3 \<le> q \<and> empty_page w (q - 2) \<and> empty_page w (q - 1) \<and> empty_page w q"
        by blast
      then show False
      proof cases
        case 1
        from q1 1 s [unfolded scrape_cian_def] have "Suc q \<le> q" by (rule pages_stop_at)
        then show False by simp
      next
        case 2
        then have l: "1 \<le> q - 2" and d: "q - 2 + 1 = q - 1" "q - 2 + 2 = q" by arith+
        from 2 have e: "empty_page w (q - 2)" "empty_page w (q - 2 + 1)" "empty_page w (q - 2 + 2)"
          unfolding d by simp_all
        from l e s [unfolded scrape_cian_def] have "Suc q \<le> q - 2 + 2" by (rule pages_three_empty)
        moreover from 2 have "3 \<le> q" by blast
        ultimately show False by arith
      qed
    qed
  qed
qed

theorem scrapers_share_control_structure_witness:
  "scrape_avito demo_site 10 = scrape_cian demo_site 10 \<and>
   pages_requested (scrape_cian demo_site 10) = [1, 2, 3, 4] \<and>
   item_requests (scrape_cian demo_site 10) =
     [(1, link_a, 1), (1, link_a, 2), (1, link_a, 3), (1, link_b, 1)] \<and>
   backoffs (scrape_cian demo_site 10) = [2, 4] \<and>
   page_links demo_site 1 = [link_a, link_b] \<and>
   empty_page demo_site 2 \<and> empty_page demo_site 3 \<and> empty_page demo_site 4 \<and>
   \<not> empty_page demo_site 5"
  using scrapers_share_control_structure [of demo_site 10] demo_site_pages
  by (simp add: demo_site_run)

end

